theory Spec2Isabelle
  imports Main "HOL-Library.Word"
begin

section \<open>Data model of the ModIOFHE contract\<close>

text \<open>
  Solidity value types are machine words: \<open>uint256\<close> and \<open>bytes32\<close> have 256 bits, an
  \<open>address\<close> has 160. A ciphertext handle (\<open>euint32\<close>) is a 32-byte value of the
  external FHE library; a storage slot that was never written holds the all-zero word.
  A Solidity \<open>mapping\<close> is total (an unwritten key reads as the zero value), so it is a
  HOL function.
\<close>

type_synonym uint256 = "256 word"
type_synonym address = "160 word"
type_synonym bytes32 = "256 word"
type_synonym euint32 = "256 word"
type_synonym bytes = "8 word list"

text \<open>
  Every way a call can revert. The first eleven are the contract's custom errors;
  \<open>Require\<close> carries the message of a \<open>require\<close> or \<open>revert(string)\<close>; \<open>Panic\<close> is the
  checked-arithmetic failure of Solidity 0.8; \<open>InvalidInitialization\<close> is the
  \<open>initializer\<close> modifier refusing a second run; \<open>InvalidSignatures\<close> is
  \<open>FHE.checkSignatures\<close> reverting; \<open>DecodeError\<close> is \<open>abi.decode\<close> on a payload shorter
  than one word. The source declares both an error and an event named \<open>Paused\<close>; the
  event is \<open>PausedBy\<close> here.
\<close>

datatype error =
    NotOwner | NotProvider | Paused | InvalidBatch | RateLimited | StaleWrite
  | ReplayAttempt | InvalidStateHash | BatchFull | BatchNotOpen | InvalidRequest
  | Require string | Panic | InvalidInitialization | InvalidSignatures | DecodeError

datatype event =
    ProviderAdded address
  | ProviderRemoved address
  | PausedBy address
  | Unpaused address
  | CooldownUpdated uint256 uint256
  | BatchOpened uint256
  | BatchClosed uint256
  | ModSubmitted address uint256 bytes32
  | DecryptionRequested uint256 uint256 bytes32
  | DecryptionComplete uint256 uint256 uint256
  | RateLimitTriggered address string

record Batch =
  isOpen :: bool
  modCount :: uint256
  modIds :: "bytes32 list"
  encryptedAggregate :: euint32

record DecryptionContext =
  batchId :: uint256
  stateHash :: bytes32
  processed :: bool
  requester :: address

text \<open>
  The contract's storage: the state variables of the source, and
  \<^item> \<open>initialized\<close> and \<open>owner\<close>. Modelled from the spec: the \<open>initializer\<close>
    modifier, \<open>__SepoliaConfig_init\<close> and \<open>owner()\<close> belong to a base contract that
    is not part of the source. The design document says that the owner is a singleton set
    at initialization and that \<open>initialize\<close> is callable once; so \<open>owner\<close> is the zero
    address until \<open>initialize\<close> sets it to its caller, and \<open>initialized\<close> records
    that \<open>initialize\<close> has run;
  \<^item> \<open>events\<close>, the log of emitted events, oldest first.
\<close>

record state =
  paused :: bool
  cooldownInterval :: uint256
  currentBatchId :: uint256
  modelVersion :: uint256
  maxBatchSize :: uint256
  isProvider :: "address \<Rightarrow> bool"
  lastSubmissionAt :: "address \<Rightarrow> uint256"
  lastRequestAt :: "address \<Rightarrow> uint256"
  batches :: "uint256 \<Rightarrow> Batch"
  decryptionContexts :: "uint256 \<Rightarrow> DecryptionContext"
  encryptedScores :: "bytes32 \<Rightarrow> euint32"
  modSubmitters :: "bytes32 \<Rightarrow> address"
  modBatchIds :: "bytes32 \<Rightarrow> uint256"
  initialized :: bool
  owner :: address
  events :: "event list"

text \<open>
  The external capabilities the contract calls but does not implement: the FHE library
  (\<open>FHE.asEuint32(0)\<close>, \<open>FHE.add\<close>, \<open>FHE.isInitialized\<close>, \<open>FHE.toBytes32\<close>,
  \<open>FHE.checkSignatures\<close>, which is \<open>True\<close> when it does not revert), the hash
  \<open>keccak256(abi.encode(cts, address(this)))\<close>, and the contract's own address. They
  are parameters of every operation.
\<close>

record fhe =
  fhe_asEuint32_0 :: euint32
  fhe_add :: "euint32 \<Rightarrow> euint32 \<Rightarrow> euint32"
  fhe_isInitialized :: "euint32 \<Rightarrow> bool"
  fhe_toBytes32 :: "euint32 \<Rightarrow> bytes32"
  fhe_checkSignatures :: "uint256 \<Rightarrow> bytes \<Rightarrow> bytes \<Rightarrow> bool"
  keccak256_encode :: "bytes32 list \<Rightarrow> address \<Rightarrow> bytes32"
  this_address :: address

text \<open>
  What a call sees of its environment: \<open>msg.sender\<close>, \<open>block.timestamp\<close>, and the
  request identifier that \<open>FHE.requestDecryption\<close> hands back if the call reaches it.
\<close>

record env =
  sender :: address
  timestamp :: uint256
  oracleRequestId :: uint256

datatype tx =
    Initialize
  | SetCooldownInterval uint256
  | SetMaxBatchSize uint256
  | Pause
  | Unpause
  | AddProvider address
  | RemoveProvider address
  | OpenBatch
  | CloseBatch uint256
  | SubmitEncryptedMod bytes32 euint32
  | RequestBatchDecryption uint256
  | HandleDecryptionCallback uint256 bytes bytes

section \<open>Operations\<close>

fun andThen :: "error + 'a \<Rightarrow> ('a \<Rightarrow> error + 'b) \<Rightarrow> error + 'b" where
  "andThen (Inl e) f = Inl e"
| "andThen (Inr x) f = f x"

text \<open>Checked arithmetic of Solidity 0.8: \<open>a - b\<close> and \<open>x++\<close> revert instead of wrapping.\<close>

definition checked_sub :: "uint256 \<Rightarrow> uint256 \<Rightarrow> error + uint256" where
  "checked_sub a b = (if a < b then Inl Panic else Inr (a - b))"

definition checked_inc :: "uint256 \<Rightarrow> error + uint256" where
  "checked_inc x = (if x = - 1 then Inl Panic else Inr (x + 1))"

definition MIN_INTERVAL :: uint256 where
  "MIN_INTERVAL = 5"

definition emit :: "event \<Rightarrow> state \<Rightarrow> state" where
  "emit e s = s\<lparr>events := events s @ [e]\<rparr>"

subsection \<open>Modifiers\<close>

definition onlyOwner :: "env \<Rightarrow> state \<Rightarrow> error + state" where
  "onlyOwner en s = (if sender en \<noteq> owner s then Inl NotOwner else Inr s)"

definition onlyProvider :: "env \<Rightarrow> state \<Rightarrow> error + state" where
  "onlyProvider en s = (if \<not> isProvider s (sender en) then Inl NotProvider else Inr s)"

definition whenNotPaused :: "state \<Rightarrow> error + state" where
  "whenNotPaused s = (if paused s then Inl Paused else Inr s)"

definition rateLimited :: "string \<Rightarrow> env \<Rightarrow> state \<Rightarrow> error + state" where
  "rateLimited action en s =
     (let currentTime = timestamp en in
      if action = ''submit'' then
        andThen (checked_sub currentTime (lastSubmissionAt s (sender en))) (\<lambda>d.
          if d < cooldownInterval s then Inl RateLimited
          else Inr (s\<lparr>lastSubmissionAt := (lastSubmissionAt s)(sender en := currentTime)\<rparr>))
      else if action = ''request'' then
        andThen (checked_sub currentTime (lastRequestAt s (sender en))) (\<lambda>d.
          if d < cooldownInterval s then Inl RateLimited
          else Inr (s\<lparr>lastRequestAt := (lastRequestAt s)(sender en := currentTime)\<rparr>))
      else Inr s)"

subsection \<open>Internal helpers\<close>

definition hashCiphertexts :: "fhe \<Rightarrow> bytes32 list \<Rightarrow> bytes32" where
  "hashCiphertexts cap cts = keccak256_encode cap cts (this_address cap)"

definition initIfNeeded :: "fhe \<Rightarrow> euint32 \<Rightarrow> euint32" where
  "initIfNeeded cap x = (if \<not> fhe_isInitialized cap x then fhe_asEuint32_0 cap else x)"

definition requireInitialized :: "fhe \<Rightarrow> euint32 \<Rightarrow> string \<Rightarrow> error + unit" where
  "requireInitialized cap x tag =
     (if \<not> fhe_isInitialized cap x then Inl (Require (tag @ '' not initialized'')) else Inr ())"

text \<open>The private function \<open>_openBatch\<close> of the source.\<close>

definition openBatch_private :: "fhe \<Rightarrow> uint256 \<Rightarrow> state \<Rightarrow> state" where
  "openBatch_private cap b s =
     emit (BatchOpened b)
       (s\<lparr>batches := (batches s)(b :=
            \<lparr>isOpen = True, modCount = 0, modIds = [], encryptedAggregate = fhe_asEuint32_0 cap\<rparr>)\<rparr>)"

text \<open>
  The \<open>for\<close> loop of \<open>requestBatchDecryption\<close>, over the mod identifiers still to visit:
  each score is read, checked to be initialized, and added to the running aggregate.
\<close>

fun aggregateLoop :: "fhe \<Rightarrow> (bytes32 \<Rightarrow> euint32) \<Rightarrow> bytes32 list \<Rightarrow> euint32 \<Rightarrow> error + euint32" where
  "aggregateLoop cap scores [] aggregate = Inr aggregate"
| "aggregateLoop cap scores (modId # rest) aggregate =
     (let score = scores modId in
      andThen (requireInitialized cap score ''score'') (\<lambda>_.
        aggregateLoop cap scores rest (fhe_add cap aggregate score)))"

text \<open>
  \<open>abi.decode(cleartexts, (uint256))\<close>: the first 32 bytes, big-endian; a shorter
  payload reverts.
\<close>

definition abi_decode_uint256 :: "bytes \<Rightarrow> error + uint256" where
  "abi_decode_uint256 bs =
     (if length bs < 32 then Inl DecodeError
      else Inr (foldl (\<lambda>acc b. acc * 256 + ucast b) 0 (take 32 bs)))"

subsection \<open>External functions\<close>

text \<open>
  Modelled from the spec: the first step of \<open>initialize\<close> (the \<open>initializer\<close>
  modifier and \<open>__SepoliaConfig_init\<close>, which are not in the source) refuses a second
  run and makes the caller the owner. The rest of \<open>initialize\<close> and every other
  function follow the source statement by statement.
\<close>

definition initialize :: "fhe \<Rightarrow> env \<Rightarrow> state \<Rightarrow> error + state" where
  "initialize cap en s =
     (if initialized s then Inl InvalidInitialization
      else
        let s1 = s\<lparr>initialized := True, owner := sender en\<rparr>;
            s2 = s1\<lparr>isProvider := (isProvider s1)(owner s1 := True)\<rparr>;
            s3 = s2\<lparr>modelVersion := 1\<rparr>;
            s4 = s3\<lparr>currentBatchId := 1\<rparr>
        in Inr (openBatch_private cap (currentBatchId s4) s4))"

definition setCooldownInterval :: "env \<Rightarrow> uint256 \<Rightarrow> state \<Rightarrow> error + state" where
  "setCooldownInterval en newInterval s =
     andThen (onlyOwner en s) (\<lambda>s.
       if \<not> newInterval \<ge> MIN_INTERVAL then Inl (Require ''Interval too small'')
       else
         let oldInterval = cooldownInterval s in
         Inr (emit (CooldownUpdated oldInterval newInterval) (s\<lparr>cooldownInterval := newInterval\<rparr>)))"

definition setMaxBatchSize :: "env \<Rightarrow> uint256 \<Rightarrow> state \<Rightarrow> error + state" where
  "setMaxBatchSize en newSize s =
     andThen (onlyOwner en s) (\<lambda>s.
       if \<not> newSize > 0 then Inl (Require ''Invalid size'')
       else Inr (s\<lparr>maxBatchSize := newSize\<rparr>))"

definition pause :: "env \<Rightarrow> state \<Rightarrow> error + state" where
  "pause en s =
     andThen (onlyOwner en s) (\<lambda>s. andThen (whenNotPaused s) (\<lambda>s.
       Inr (emit (PausedBy (sender en)) (s\<lparr>paused := True\<rparr>))))"

definition unpause :: "env \<Rightarrow> state \<Rightarrow> error + state" where
  "unpause en s =
     andThen (onlyOwner en s) (\<lambda>s.
       if \<not> paused s then Inl (Require ''Not paused'')
       else Inr (emit (Unpaused (sender en)) (s\<lparr>paused := False\<rparr>)))"

definition addProvider :: "env \<Rightarrow> address \<Rightarrow> state \<Rightarrow> error + state" where
  "addProvider en provider s =
     andThen (onlyOwner en s) (\<lambda>s.
       Inr (emit (ProviderAdded provider) (s\<lparr>isProvider := (isProvider s)(provider := True)\<rparr>)))"

definition removeProvider :: "env \<Rightarrow> address \<Rightarrow> state \<Rightarrow> error + state" where
  "removeProvider en provider s =
     andThen (onlyOwner en s) (\<lambda>s.
       Inr (emit (ProviderRemoved provider) (s\<lparr>isProvider := (isProvider s)(provider := False)\<rparr>)))"

definition openBatch :: "fhe \<Rightarrow> env \<Rightarrow> state \<Rightarrow> error + state" where
  "openBatch cap en s =
     andThen (onlyOwner en s) (\<lambda>s.
       andThen (checked_inc (currentBatchId s)) (\<lambda>n.
         let s1 = s\<lparr>currentBatchId := n\<rparr> in
         Inr (openBatch_private cap (currentBatchId s1) s1)))"

definition closeBatch :: "env \<Rightarrow> uint256 \<Rightarrow> state \<Rightarrow> error + state" where
  "closeBatch en b s =
     andThen (onlyOwner en s) (\<lambda>s.
       let batch = batches s b in
       if \<not> isOpen batch then Inl InvalidBatch
       else Inr (emit (BatchClosed b) (s\<lparr>batches := (batches s)(b := batch\<lparr>isOpen := False\<rparr>)\<rparr>)))"

definition submitEncryptedMod :: "env \<Rightarrow> bytes32 \<Rightarrow> euint32 \<Rightarrow> state \<Rightarrow> error + state" where
  "submitEncryptedMod en modId encryptedScore s =
     andThen (onlyProvider en s) (\<lambda>s. andThen (whenNotPaused s) (\<lambda>s.
     andThen (rateLimited ''submit'' en s) (\<lambda>s.
       if modSubmitters s modId \<noteq> 0 then Inl StaleWrite
       else if \<not> isOpen (batches s (currentBatchId s)) then Inl BatchNotOpen
       else
         let batch = batches s (currentBatchId s) in
         if modCount batch \<ge> maxBatchSize s then Inl BatchFull
         else
           andThen (checked_inc (modCount batch)) (\<lambda>n.
             Inr (emit (ModSubmitted (sender en) (currentBatchId s) modId)
               (s\<lparr>modSubmitters := (modSubmitters s)(modId := sender en),
                   modBatchIds := (modBatchIds s)(modId := currentBatchId s),
                   encryptedScores := (encryptedScores s)(modId := encryptedScore),
                   batches := (batches s)(currentBatchId s :=
                     batch\<lparr>modIds := modIds batch @ [modId], modCount := n\<rparr>)\<rparr>))))))"

definition requestBatchDecryption :: "fhe \<Rightarrow> env \<Rightarrow> uint256 \<Rightarrow> state \<Rightarrow> error + state" where
  "requestBatchDecryption cap en b s =
     andThen (whenNotPaused s) (\<lambda>s. andThen (rateLimited ''request'' en s) (\<lambda>s.
       let batch = batches s b in
       if modCount batch = 0 then Inl InvalidBatch
       else
         andThen (aggregateLoop cap (encryptedScores s) (modIds batch)
                    (initIfNeeded cap (encryptedAggregate batch))) (\<lambda>aggregate.
           let cts = [fhe_toBytes32 cap aggregate];
               h = hashCiphertexts cap cts;
               requestId = oracleRequestId en
           in Inr (emit (DecryptionRequested requestId b h)
                (s\<lparr>decryptionContexts := (decryptionContexts s)(requestId :=
                     \<lparr>batchId = b, stateHash = h, processed = False, requester = sender en\<rparr>)\<rparr>)))))"

definition handleDecryptionCallback :: "fhe \<Rightarrow> uint256 \<Rightarrow> bytes \<Rightarrow> bytes \<Rightarrow> state \<Rightarrow> error + state" where
  "handleDecryptionCallback cap requestId cleartexts proof s =
     (if processed (decryptionContexts s requestId) then Inl ReplayAttempt
      else
        let ctx = decryptionContexts s requestId;
            batch = batches s (batchId ctx);
            currentAggregate = initIfNeeded cap (encryptedAggregate batch);
            currentCts = [fhe_toBytes32 cap currentAggregate];
            currentStateHash = hashCiphertexts cap currentCts
        in
          if currentStateHash \<noteq> stateHash ctx then Inl InvalidStateHash
          else if \<not> fhe_checkSignatures cap requestId cleartexts proof then Inl InvalidSignatures
          else
            andThen (abi_decode_uint256 cleartexts) (\<lambda>totalScore.
              Inr (emit (DecryptionComplete requestId (batchId ctx) totalScore)
                (s\<lparr>decryptionContexts := (decryptionContexts s)(requestId :=
                     ctx\<lparr>processed := True\<rparr>)\<rparr>))))"

subsection \<open>Calls and runs\<close>

fun exec :: "fhe \<Rightarrow> env \<Rightarrow> tx \<Rightarrow> state \<Rightarrow> error + state" where
  "exec cap en Initialize s = initialize cap en s"
| "exec cap en (SetCooldownInterval n) s = setCooldownInterval en n s"
| "exec cap en (SetMaxBatchSize n) s = setMaxBatchSize en n s"
| "exec cap en Pause s = pause en s"
| "exec cap en Unpause s = unpause en s"
| "exec cap en (AddProvider a) s = addProvider en a s"
| "exec cap en (RemoveProvider a) s = removeProvider en a s"
| "exec cap en OpenBatch s = openBatch cap en s"
| "exec cap en (CloseBatch b) s = closeBatch en b s"
| "exec cap en (SubmitEncryptedMod m sc) s = submitEncryptedMod en m sc s"
| "exec cap en (RequestBatchDecryption b) s = requestBatchDecryption cap en b s"
| "exec cap en (HandleDecryptionCallback r c p) s = handleDecryptionCallback cap r c p s"

text \<open>A reverted call leaves the storage as it was; a successful one commits its result.\<close>

definition apply_call :: "fhe \<Rightarrow> state \<Rightarrow> env \<times> tx \<Rightarrow> state" where
  "apply_call cap s c = (case exec cap (fst c) (snd c) s of Inl e \<Rightarrow> s | Inr s' \<Rightarrow> s')"

definition run :: "fhe \<Rightarrow> (env \<times> tx) list \<Rightarrow> state \<Rightarrow> state" where
  "run cap calls s = foldl (apply_call cap) s calls"

text \<open>The storage right after deployment: the declared initial values, everything else zero.\<close>

definition deployed :: state where
  "deployed =
     \<lparr>paused = False, cooldownInterval = 30, currentBatchId = 0, modelVersion = 0,
      maxBatchSize = 100, isProvider = (\<lambda>_. False), lastSubmissionAt = (\<lambda>_. 0),
      lastRequestAt = (\<lambda>_. 0),
      batches = (\<lambda>_. \<lparr>isOpen = False, modCount = 0, modIds = [], encryptedAggregate = 0\<rparr>),
      decryptionContexts = (\<lambda>_. \<lparr>batchId = 0, stateHash = 0, processed = False, requester = 0\<rparr>),
      encryptedScores = (\<lambda>_. 0), modSubmitters = (\<lambda>_. 0), modBatchIds = (\<lambda>_. 0),
      initialized = False, owner = 0, events = []\<rparr>"

text \<open>
  What the chain guarantees of a sequence of calls starting at time \<open>t\<close>: no call comes
  from the zero address, and block timestamps never decrease.
\<close>

fun chain_ok :: "uint256 \<Rightarrow> (env \<times> tx) list \<Rightarrow> bool" where
  "chain_ok t [] = True"
| "chain_ok t (c # cs) = (sender (fst c) \<noteq> 0 \<and> t \<le> timestamp (fst c) \<and> chain_ok (timestamp (fst c)) cs)"

fun end_time :: "uint256 \<Rightarrow> (env \<times> tx) list \<Rightarrow> uint256" where
  "end_time t [] = t"
| "end_time t (c # cs) = end_time (timestamp (fst c)) cs"

section \<open>Specification-side definitions and invariants\<close>

text \<open>
  The aggregate as the design document words it, written without the helpers of the
  code: the encrypted-add folded over every submission's score handle in the batch's
  recorded order; the fold starts from the batch's stored aggregate when that handle is
  initialized and from the explicit zero handle when it is not.
\<close>

definition recomputeAggregate :: "fhe \<Rightarrow> state \<Rightarrow> uint256 \<Rightarrow> euint32" where
  "recomputeAggregate cap s b =
     foldl (fhe_add cap)
       (if fhe_isInitialized cap (encryptedAggregate (batches s b))
        then encryptedAggregate (batches s b) else fhe_asEuint32_0 cap)
       (map (encryptedScores s) (modIds (batches s b)))"

text \<open>A batch slot that no call has written yet.\<close>

definition unopened :: Batch where
  "unopened = \<lparr>isOpen = False, modCount = 0, modIds = [], encryptedAggregate = 0\<rparr>"

text \<open>
  Facts that hold of the storage after any sequence of calls from deployment: before
  \<open>initialize\<close> there is no owner and no batch; no batch beyond the current id has been
  written; each batch's counter is the length of its identifier list.
\<close>

definition ledger_inv :: "state \<Rightarrow> bool" where
  "ledger_inv s \<longleftrightarrow>
     (\<not> initialized s \<longrightarrow> owner s = 0 \<and> currentBatchId s = 0 \<and> (\<forall>b. batches s b = unopened)) \<and>
     (\<forall>b. currentBatchId s < b \<longrightarrow> batches s b = unopened) \<and>
     (\<forall>b. unat (modCount (batches s b)) = length (modIds (batches s b)))"

text \<open>Every batch slot that was written holds the encrypted-zero handle as its aggregate.\<close>

definition aggregates_zero :: "fhe \<Rightarrow> state \<Rightarrow> bool" where
  "aggregates_zero cap s \<longleftrightarrow>
     (\<forall>b. batches s b = unopened \<or> encryptedAggregate (batches s b) = fhe_asEuint32_0 cap)"

text \<open>No cooldown stamp lies after time \<open>t\<close>.\<close>

definition stamps_le :: "uint256 \<Rightarrow> state \<Rightarrow> bool" where
  "stamps_le t s \<longleftrightarrow> (\<forall>a. lastSubmissionAt s a \<le> t \<and> lastRequestAt s a \<le> t)"

text \<open>The capacity bound on every batch.\<close>

definition within_capacity :: "state \<Rightarrow> bool" where
  "within_capacity s \<longleftrightarrow> (\<forall>b. modCount (batches s b) \<le> maxBatchSize s)"

text \<open>
  A call that, if it succeeds, stores a fresh decryption context under request id \<open>r\<close>:
  a decryption request to which the oracle answers with the identifier \<open>r\<close>.
\<close>

fun issues_id :: "uint256 \<Rightarrow> env \<times> tx \<Rightarrow> bool" where
  "issues_id r (en, RequestBatchDecryption b) = (oracleRequestId en = r)"
| "issues_id r (en, x) = False"

fun is_opening :: "tx \<Rightarrow> bool" where
  "is_opening Initialize = True"
| "is_opening OpenBatch = True"
| "is_opening x = False"

subsection \<open>A concrete capability for running the model\<close>

text \<open>
  A plaintext stand-in for the external capability, used only to evaluate the model on
  concrete inputs: the handle of the value \<open>v\<close> is \<open>v + 1\<close> (so the handle 0 is the
  uninitialized one and the encrypted zero is 1), adding two handles adds the values,
  a handle is its own byte representation, the hash is a polynomial in the ciphertext
  words seeded with the contract address (it separates any two distinct one-word
  lists), and a proof is accepted when it is the one byte 1.
\<close>

definition demo_fhe :: fhe where
  "demo_fhe =
     \<lparr>fhe_asEuint32_0 = 1, fhe_add = (\<lambda>a b. a + b - 1), fhe_isInitialized = (\<lambda>x. x \<noteq> 0),
      fhe_toBytes32 = (\<lambda>x. x), fhe_checkSignatures = (\<lambda>r c p. p = [1]),
      keccak256_encode = (\<lambda>cts a. foldl (\<lambda>h c. h * 31 + c) (ucast a) cts),
      this_address = 192\<rparr>"

text \<open>A call by \<open>a\<close> at time \<open>t\<close>; the oracle answers a decryption request with the id \<open>r\<close>.\<close>

definition call :: "address \<Rightarrow> uint256 \<Rightarrow> uint256 \<Rightarrow> tx \<Rightarrow> env \<times> tx" where
  "call a t r x = (\<lparr>sender = a, timestamp = t, oracleRequestId = r\<rparr>, x)"

text \<open>The ABI encoding of a number below 256: one 32-byte big-endian word.\<close>

definition abi_word :: "8 word \<Rightarrow> bytes" where
  "abi_word v = replicate 31 0 @ [v]"

text \<open>
  The running example: the owner 10 initializes at time 100 and submits the mod 1 with
  the handle \<open>x\<close> at time 200 (\<open>one_mod\<close>), then the mod 2 with the handle \<open>y\<close> at
  time 300 (\<open>two_mods\<close>). In \<open>request_env\<close> account 11 calls at time 400 and the
  oracle answers a decryption request with the identifier 7.
\<close>

definition one_mod :: "euint32 \<Rightarrow> (env \<times> tx) list" where
  "one_mod x = [call 10 100 0 Initialize, call 10 200 0 (SubmitEncryptedMod 1 x)]"

definition two_mods :: "euint32 \<Rightarrow> euint32 \<Rightarrow> (env \<times> tx) list" where
  "two_mods x y = one_mod x @ [call 10 300 0 (SubmitEncryptedMod 2 y)]"

definition request_env :: env where
  "request_env = \<lparr>sender = 11, timestamp = 400, oracleRequestId = 7\<rparr>"

text \<open>
  \<open>requested x\<close> continues \<open>one_mod x\<close> with account 11 requesting the decryption of
  batch 1; in \<open>answered\<close> the batch holds one encrypted zero and account 12 then
  delivers the callback for request 7 with the cleartext 0 and the accepted proof.
\<close>

definition requested :: "euint32 \<Rightarrow> (env \<times> tx) list" where
  "requested x = one_mod x @ [(request_env, RequestBatchDecryption 1)]"

definition answered :: "(env \<times> tx) list" where
  "answered = requested 1 @ [call 12 500 0 (HandleDecryptionCallback 7 (abi_word 0) [1])]"

text \<open>
  \<open>later_calls\<close> continues a run after time 300: the owner opens batch 2 and makes
  account 12 a provider, and account 12 submits the mod 5 at time 700.
\<close>

definition later_calls :: "(env \<times> tx) list" where
  "later_calls =
     [call 10 500 0 OpenBatch, call 10 600 0 (AddProvider 12),
      call 12 700 0 (SubmitEncryptedMod 5 9)]"

text \<open>
  A second stand-in capability, whose add is not commutative, so that the order in which
  the scores are folded shows in the aggregate.
\<close>

definition ordered_fhe :: fhe where
  "ordered_fhe = demo_fhe\<lparr>fhe_add := (\<lambda>a b. a * 31 + b)\<rparr>"

text \<open>
  A storage in which batch 5 holds the mods 1 and 2 while its stored aggregate is still
  the unwritten handle 0, which no capability here takes for initialized. No run from
  deployment reaches it (an opened batch stores the encrypted zero); it serves to observe
  the start value of the fold.
\<close>

definition stray_batch :: state where
  "stray_batch =
     deployed\<lparr>batches := (batches deployed)(5 :=
                \<lparr>isOpen = False, modCount = 2, modIds = [1, 2], encryptedAggregate = 0\<rparr>),
              encryptedScores := (encryptedScores deployed)(1 := 11, 2 := 6)\<rparr>"

section \<open>Basic lemmas\<close>

lemma andThen_Inr_iff [simp]: "andThen x f = Inr y \<longleftrightarrow> (\<exists>a. x = Inr a \<and> f a = Inr y)"
  by (cases x) auto

lemma andThen_Inl_iff [simp]: "andThen x f = Inl e \<longleftrightarrow> x = Inl e \<or> (\<exists>a. x = Inr a \<and> f a = Inl e)"
  by (cases x) auto

lemma onlyOwner_Inr [simp]: "onlyOwner en s = Inr s' \<longleftrightarrow> sender en = owner s \<and> s' = s"
  by (auto simp: onlyOwner_def)

lemma onlyOwner_Inl [simp]: "onlyOwner en s = Inl e \<longleftrightarrow> sender en \<noteq> owner s \<and> e = NotOwner"
  by (auto simp: onlyOwner_def)

lemma onlyProvider_Inr [simp]: "onlyProvider en s = Inr s' \<longleftrightarrow> isProvider s (sender en) \<and> s' = s"
  by (auto simp: onlyProvider_def)

lemma onlyProvider_Inl [simp]: "onlyProvider en s = Inl e \<longleftrightarrow> \<not> isProvider s (sender en) \<and> e = NotProvider"
  by (auto simp: onlyProvider_def)

lemma whenNotPaused_Inr [simp]: "whenNotPaused s = Inr s' \<longleftrightarrow> \<not> paused s \<and> s' = s"
  by (auto simp: whenNotPaused_def)

lemma whenNotPaused_Inl [simp]: "whenNotPaused s = Inl e \<longleftrightarrow> paused s \<and> e = Paused"
  by (auto simp: whenNotPaused_def)

lemma checked_inc_Inr [simp]: "checked_inc x = Inr y \<longleftrightarrow> x \<noteq> - 1 \<and> y = x + 1"
  by (auto simp: checked_inc_def)

lemma checked_inc_Inl [simp]: "checked_inc x = Inl e \<longleftrightarrow> x = - 1 \<and> e = Panic"
  by (auto simp: checked_inc_def)

lemma checked_sub_Inr [simp]: "checked_sub a b = Inr d \<longleftrightarrow> b \<le> a \<and> d = a - b"
  by (auto simp: checked_sub_def)

lemma checked_sub_Inl [simp]: "checked_sub a b = Inl e \<longleftrightarrow> a < b \<and> e = Panic"
  by (auto simp: checked_sub_def)

lemma rateLimited_submit_Inr [simp]:
  "rateLimited ''submit'' en s = Inr s' \<longleftrightarrow>
     lastSubmissionAt s (sender en) \<le> timestamp en \<and>
     \<not> timestamp en - lastSubmissionAt s (sender en) < cooldownInterval s \<and>
     s' = s\<lparr>lastSubmissionAt := (lastSubmissionAt s)(sender en := timestamp en)\<rparr>"
  by (auto simp: rateLimited_def Let_def)

lemma rateLimited_request_Inr [simp]:
  "rateLimited ''request'' en s = Inr s' \<longleftrightarrow>
     lastRequestAt s (sender en) \<le> timestamp en \<and>
     \<not> timestamp en - lastRequestAt s (sender en) < cooldownInterval s \<and>
     s' = s\<lparr>lastRequestAt := (lastRequestAt s)(sender en := timestamp en)\<rparr>"
  by (auto simp: rateLimited_def Let_def)

lemma rateLimited_submit_Inl [simp]:
  "rateLimited ''submit'' en s = Inl e \<longleftrightarrow>
     (timestamp en < lastSubmissionAt s (sender en) \<and> e = Panic) \<or>
     (lastSubmissionAt s (sender en) \<le> timestamp en \<and>
      timestamp en - lastSubmissionAt s (sender en) < cooldownInterval s \<and> e = RateLimited)"
  by (auto simp: rateLimited_def Let_def)

lemma rateLimited_request_Inl [simp]:
  "rateLimited ''request'' en s = Inl e \<longleftrightarrow>
     (timestamp en < lastRequestAt s (sender en) \<and> e = Panic) \<or>
     (lastRequestAt s (sender en) \<le> timestamp en \<and>
      timestamp en - lastRequestAt s (sender en) < cooldownInterval s \<and> e = RateLimited)"
  by (auto simp: rateLimited_def Let_def)

lemma unat_inc: "(x::uint256) \<noteq> - 1 \<Longrightarrow> unat (x + 1) = Suc (unat x)"
  using unatSuc [of x] max_word_wrap [of x] by (auto simp add: add.commute)

lemma less_inc: "(x::uint256) \<noteq> - 1 \<Longrightarrow> x < x + 1"
  by (simp add: word_less_nat_alt unat_inc)

lemma inc_less_trans: "(x::uint256) \<noteq> - 1 \<Longrightarrow> x + 1 < b \<Longrightarrow> x < b"
  using less_inc [of x] by simp

lemmas tx_defs = initialize_def setCooldownInterval_def setMaxBatchSize_def pause_def unpause_def
  addProvider_def removeProvider_def openBatch_def closeBatch_def submitEncryptedMod_def
  requestBatchDecryption_def handleDecryptionCallback_def openBatch_private_def emit_def Let_def

lemma run_Nil [simp]: "run cap [] s = s"
  by (simp add: run_def)

lemma run_Cons [simp]: "run cap (c # cs) s = run cap cs (apply_call cap s c)"
  by (simp add: run_def)

lemma run_append [simp]: "run cap (cs @ ds) s = run cap ds (run cap cs s)"
  by (simp add: run_def)

lemma chain_ok_append [simp]:
  "chain_ok t (cs @ ds) \<longleftrightarrow> chain_ok t cs \<and> chain_ok (end_time t cs) ds"
  by (induction cs arbitrary: t) auto

lemma end_time_append [simp]: "end_time t (cs @ ds) = end_time (end_time t cs) ds"
  by (induction cs arbitrary: t) auto

subsection \<open>The invariants hold along every run\<close>

lemma ledger_inv_deployed: "ledger_inv deployed"
  by (simp add: ledger_inv_def deployed_def unopened_def)

lemma ledger_inv_step:
  assumes "ledger_inv s" and "sender en \<noteq> 0" and "exec cap en x s = Inr s'"
  shows "ledger_inv s'"
proof (cases x)
  case Initialize
  with assms show ?thesis
    by (auto simp: ledger_inv_def tx_defs split: if_splits)
next
  case OpenBatch
  with assms show ?thesis
    by (auto simp: ledger_inv_def tx_defs split: if_splits dest: inc_less_trans)
next
  case (CloseBatch b)
  with assms show ?thesis
    by (auto simp: ledger_inv_def tx_defs unopened_def split: if_splits)
next
  case (SubmitEncryptedMod m sc)
  with assms show ?thesis
    by (auto simp: ledger_inv_def tx_defs unat_inc unopened_def split: if_splits)
next
  case (RequestBatchDecryption b)
  with assms show ?thesis
    by (auto simp: ledger_inv_def tx_defs split: if_splits)
qed (use assms in \<open>auto simp: ledger_inv_def tx_defs split: if_splits\<close>)

lemma stamps_le_step:
  assumes "stamps_le t s" and "t \<le> timestamp en" and "exec cap en x s = Inr s'"
  shows "stamps_le (timestamp en) s'"
proof -
  have mono: "\<And>v. v \<le> t \<Longrightarrow> v \<le> timestamp en"
    using assms(2) by simp
  show ?thesis
  proof (cases x)
    case (SubmitEncryptedMod m sc)
    with assms(1,3) mono show ?thesis
      by (auto simp: stamps_le_def tx_defs split: if_splits)
  next
    case (RequestBatchDecryption b)
    with assms(1,3) mono show ?thesis
      by (auto simp: stamps_le_def tx_defs split: if_splits)
  qed (use assms(1,3) mono in \<open>auto simp: stamps_le_def tx_defs split: if_splits\<close>)
qed

lemma ledger_inv_apply:
  "ledger_inv s \<Longrightarrow> sender (fst c) \<noteq> 0 \<Longrightarrow> ledger_inv (apply_call cap s c)"
  by (auto simp: apply_call_def split: sum.splits intro: ledger_inv_step)

lemma stamps_le_apply:
  "stamps_le t s \<Longrightarrow> t \<le> timestamp (fst c) \<Longrightarrow> stamps_le (timestamp (fst c)) (apply_call cap s c)"
  by (auto simp: apply_call_def stamps_le_def split: sum.splits
      dest: stamps_le_step [unfolded stamps_le_def] order_trans)

lemma ledger_inv_run:
  "ledger_inv s \<Longrightarrow> chain_ok t calls \<Longrightarrow> ledger_inv (run cap calls s)"
  by (induction calls arbitrary: s t) (auto intro: ledger_inv_apply)

lemma stamps_le_run:
  "stamps_le t s \<Longrightarrow> chain_ok t calls \<Longrightarrow> stamps_le (end_time t calls) (run cap calls s)"
  by (induction calls arbitrary: s t) (auto intro: stamps_le_apply)

lemma stamps_le_deployed: "stamps_le t deployed"
  by (simp add: stamps_le_def deployed_def)

lemma abi_decode_abi_word [simp]: "abi_decode_uint256 (abi_word v) = Inr (ucast v)"
proof -
  have z: "foldl (\<lambda>acc b. acc * 256 + ucast b) (0::uint256) (replicate n (0::8 word)) = 0" for n
    by (induction n) simp_all
  show ?thesis
    by (simp add: abi_decode_uint256_def abi_word_def z)
qed

lemma word_le_one_iff: "(x::uint256) \<le> 1 \<longleftrightarrow> x = 0 \<or> x = 1"
proof -
  have "x \<le> 1 \<longleftrightarrow> x < 1 \<or> x = 1"
    by (rule order_le_less)
  then show ?thesis
    by simp
qed

text \<open>The equations that evaluate the model on a concrete run.\<close>

lemmas eval_defs = apply_call_def deployed_def call_def demo_fhe_def one_mod_def two_mods_def
  request_env_def requested_def answered_def tx_defs hashCiphertexts_def initIfNeeded_def
  requireInitialized_def recomputeAggregate_def onlyOwner_def onlyProvider_def whenNotPaused_def
  rateLimited_def checked_sub_def checked_inc_def word_le_one_iff later_calls_def
  ordered_fhe_def stray_batch_def

lemma aggregateLoop_fold:
  "\<forall>m\<in>set ids. fhe_isInitialized cap (scores m) \<Longrightarrow>
     aggregateLoop cap scores ids a = Inr (foldl (fhe_add cap) a (map scores ids))"
  by (induction ids arbitrary: a) (auto simp: requireInitialized_def Let_def)

lemma aggregateLoop_uninitialized:
  "\<exists>m\<in>set ids. \<not> fhe_isInitialized cap (scores m) \<Longrightarrow>
     aggregateLoop cap scores ids a = Inl (Require ''score not initialized'')"
proof (induction ids arbitrary: a)
  case Nil
  then show ?case by simp
next
  case (Cons m ids)
  show ?case
  proof (cases "fhe_isInitialized cap (scores m)")
    case True
    with Cons.prems have "\<exists>m\<in>set ids. \<not> fhe_isInitialized cap (scores m)"
      by auto
    with Cons.IH True show ?thesis
      by (simp add: requireInitialized_def Let_def)
  next
    case False
    then show ?thesis
      by (simp add: requireInitialized_def Let_def)
  qed
qed

subsection \<open>Facts about reached states\<close>

lemma ledger_inv_reached:
  "chain_ok t0 calls \<Longrightarrow> ledger_inv (run cap calls deployed)"
  using ledger_inv_deployed ledger_inv_run by blast

lemma aggregates_zero_step:
  assumes "aggregates_zero cap s" and "exec cap en x s = Inr s'"
  shows "aggregates_zero cap s'"
proof (cases x)
  case (CloseBatch b)
  with assms show ?thesis
    by (auto simp: aggregates_zero_def tx_defs unopened_def split: if_splits)
next
  case (SubmitEncryptedMod m sc)
  with assms show ?thesis
    by (auto simp: aggregates_zero_def tx_defs unopened_def split: if_splits)
qed (use assms in \<open>auto simp: aggregates_zero_def tx_defs split: if_splits\<close>)

lemma aggregates_zero_run:
  "aggregates_zero cap s \<Longrightarrow> aggregates_zero cap (run cap calls s)"
proof (induction calls arbitrary: s)
  case Nil
  then show ?case by simp
next
  case (Cons c calls)
  have "aggregates_zero cap (apply_call cap s c)"
    using Cons.prems aggregates_zero_step [of cap s "fst c" "snd c"]
    by (auto simp: apply_call_def split: sum.splits)
  then show ?case
    using Cons.IH by simp
qed

lemma aggregates_zero_reached: "aggregates_zero cap (run cap calls deployed)"
  by (rule aggregates_zero_run) (simp add: aggregates_zero_def deployed_def unopened_def)

lemma initIfNeeded_zero [simp]: "initIfNeeded cap (fhe_asEuint32_0 cap) = fhe_asEuint32_0 cap"
  by (simp add: initIfNeeded_def)

lemma aggregateLoop_Inr:
  assumes "aggregateLoop cap scores ids a = Inr r"
  shows "r = foldl (fhe_add cap) a (map scores ids)"
proof -
  have "\<forall>m\<in>set ids. fhe_isInitialized cap (scores m)"
    using assms aggregateLoop_uninitialized [of ids cap scores a] by auto
  from aggregateLoop_fold [OF this, of a] assms show ?thesis
    by simp
qed

subsection \<open>Processed contexts\<close>

lemma processed_step:
  assumes "processed (decryptionContexts s r)" and "\<not> issues_id r (en, x)"
    and "exec cap en x s = Inr s'"
  shows "processed (decryptionContexts s' r)"
  using assms by (cases x) (auto simp: tx_defs split: if_splits)

lemma processed_apply:
  "processed (decryptionContexts s r) \<Longrightarrow> \<not> issues_id r c \<Longrightarrow>
     processed (decryptionContexts (apply_call cap s c) r)"
  by (cases c) (auto simp: apply_call_def split: sum.splits intro: processed_step)

lemma processed_run:
  "processed (decryptionContexts s r) \<Longrightarrow> \<forall>c\<in>set calls. \<not> issues_id r c \<Longrightarrow>
     processed (decryptionContexts (run cap calls s) r)"
  by (induction calls arbitrary: s) (auto intro: processed_apply)

subsection \<open>Aggregates and batch lifecycle\<close>

lemma aggregate_step:
  assumes "ledger_inv s" and "sender en \<noteq> 0" and "exec cap en x s = Inr s'"
  shows "currentBatchId s \<le> currentBatchId s' \<and>
         (\<forall>b. encryptedAggregate (batches s' b) = encryptedAggregate (batches s b) \<or>
              (is_opening x \<and> currentBatchId s < b \<and> b = currentBatchId s' \<and>
               encryptedAggregate (batches s' b) = fhe_asEuint32_0 cap))"
proof (cases x)
  case OpenBatch
  with assms show ?thesis
    by (auto simp: tx_defs less_inc order_less_imp_le split: if_splits)
qed (use assms in \<open>auto simp: ledger_inv_def tx_defs split: if_splits\<close>)

lemma le_inc_neq: "(b::uint256) \<le> x \<Longrightarrow> x \<noteq> - 1 \<Longrightarrow> b \<noteq> x + 1 \<and> b \<le> x + 1"
  using less_inc [of x] by auto

lemma closed_step:
  assumes "\<not> isOpen (batches s b)" and "b \<le> currentBatchId s" and "initialized s"
    and "exec cap en x s = Inr s'"
  shows "\<not> isOpen (batches s' b) \<and> b \<le> currentBatchId s' \<and> initialized s'"
proof (cases x)
  case OpenBatch
  with assms show ?thesis
    by (auto simp: tx_defs dest: le_inc_neq split: if_splits)
qed (use assms in \<open>auto simp: tx_defs split: if_splits\<close>)

lemma closed_run:
  "\<not> isOpen (batches s b) \<Longrightarrow> b \<le> currentBatchId s \<Longrightarrow> initialized s \<Longrightarrow>
     \<not> isOpen (batches (run cap calls s) b) \<and> b \<le> currentBatchId (run cap calls s) \<and>
     initialized (run cap calls s)"
proof (induction calls arbitrary: s)
  case Nil
  then show ?case by simp
next
  case (Cons c calls)
  have "\<not> isOpen (batches (apply_call cap s c) b) \<and> b \<le> currentBatchId (apply_call cap s c) \<and>
     initialized (apply_call cap s c)"
    using Cons.prems closed_step [of s b cap "fst c" "snd c"]
    by (auto simp: apply_call_def split: sum.splits)
  then show ?case
    using Cons.IH by simp
qed

lemma open_batch_known:
  assumes "ledger_inv s" and "isOpen (batches s b)"
  shows "b \<le> currentBatchId s \<and> initialized s"
proof -
  have "batches s b \<noteq> unopened"
    using assms(2) by (auto simp: unopened_def)
  with assms(1) have "\<not> currentBatchId s < b" and "initialized s"
    by (auto simp: ledger_inv_def)
  then show ?thesis
    by (simp add: not_less)
qed

lemma closeBatch_Inr_iff:
  "closeBatch en b s = Inr s1 \<longleftrightarrow>
     sender en = owner s \<and> isOpen (batches s b) \<and>
     s1 = emit (BatchClosed b) (s\<lparr>batches := (batches s)(b := (batches s b)\<lparr>isOpen := False\<rparr>)\<rparr>)"
  by (auto simp: closeBatch_def Let_def)

lemma submit_closed:
  assumes "\<not> isOpen (batches s (currentBatchId s))"
  shows "(\<exists>e. submitEncryptedMod en m sc s = Inl e) \<and>
         (isProvider s (sender en) \<and> \<not> paused s \<and> rateLimited ''submit'' en s = Inr s3 \<and>
          modSubmitters s m = 0 \<longrightarrow> submitEncryptedMod en m sc s = Inl BatchNotOpen)"
proof -
  have "submitEncryptedMod en m sc s \<noteq> Inr s'" for s'
    using assms by (auto simp: submitEncryptedMod_def Let_def)
  then have "\<exists>e. submitEncryptedMod en m sc s = Inl e"
    by (cases "submitEncryptedMod en m sc s") auto
  moreover have "isProvider s (sender en) \<and> \<not> paused s \<and> rateLimited ''submit'' en s = Inr s3 \<and>
          modSubmitters s m = 0 \<longrightarrow> submitEncryptedMod en m sc s = Inl BatchNotOpen"
    using assms by (auto simp: submitEncryptedMod_def Let_def)
  ultimately show ?thesis by blast
qed

subsection \<open>Recorded mods and capacity\<close>

lemma recorded_step:
  assumes "modSubmitters s m \<noteq> 0" and "exec cap en x s = Inr s'"
  shows "modSubmitters s' m = modSubmitters s m \<and> modBatchIds s' m = modBatchIds s m \<and>
         encryptedScores s' m = encryptedScores s m"
  using assms by (cases x) (auto simp: tx_defs split: if_splits)

lemma recorded_run:
  "modSubmitters s m \<noteq> 0 \<Longrightarrow>
     modSubmitters (run cap calls s) m = modSubmitters s m \<and>
     modBatchIds (run cap calls s) m = modBatchIds s m \<and>
     encryptedScores (run cap calls s) m = encryptedScores s m"
proof (induction calls arbitrary: s)
  case Nil
  then show ?case by simp
next
  case (Cons c calls)
  have "modSubmitters (apply_call cap s c) m = modSubmitters s m \<and>
        modBatchIds (apply_call cap s c) m = modBatchIds s m \<and>
        encryptedScores (apply_call cap s c) m = encryptedScores s m"
    using Cons.prems recorded_step [of s m cap "fst c" "snd c"]
    by (auto simp: apply_call_def split: sum.splits)
  with Cons show ?case
    by simp
qed

lemma submit_records:
  assumes "submitEncryptedMod en0 m sc0 s0 = Inr s1"
  shows "modSubmitters s1 m = sender en0 \<and> modBatchIds s1 m = currentBatchId s0 \<and>
         encryptedScores s1 m = sc0"
  using assms by (auto simp: submitEncryptedMod_def emit_def Let_def split: if_splits)

lemma submit_recorded_error:
  assumes "modSubmitters s m \<noteq> 0" and "lastSubmissionAt s (sender en) \<le> timestamp en"
  shows "submitEncryptedMod en m sc s =
           Inl (if \<not> isProvider s (sender en) then NotProvider
                else if paused s then Paused
                else if timestamp en - lastSubmissionAt s (sender en) < cooldownInterval s
                  then RateLimited
                else StaleWrite)"
  using assms by (auto simp: submitEncryptedMod_def Let_def)

lemma apply_call_Inr: "exec cap (fst c) (snd c) s = Inr s' \<Longrightarrow> apply_call cap s c = s'"
  by (simp add: apply_call_def)

lemma capacity_step:
  assumes "within_capacity s" and "maxBatchSize s \<le> maxBatchSize s'"
    and "exec cap en x s = Inr s'"
  shows "within_capacity s'"
proof (cases x)
  case (SubmitEncryptedMod m sc)
  with assms show ?thesis
    by (auto simp: within_capacity_def tx_defs not_le inc_le split: if_splits)
next
  case (SetMaxBatchSize n)
  with assms have "maxBatchSize s \<le> n" and "maxBatchSize s' = n" and "batches s' = batches s"
    by (auto simp: tx_defs split: if_splits)
  with assms(1) show ?thesis
    unfolding within_capacity_def by (metis order_trans)
qed (use assms in \<open>auto simp: within_capacity_def tx_defs split: if_splits\<close>)

lemma submit_capacity:
  assumes "isProvider s (sender en)" and "\<not> paused s" and "rateLimited ''submit'' en s = Inr s1"
    and "modSubmitters s m = 0" and "isOpen (batches s (currentBatchId s))"
  shows "(maxBatchSize s \<le> modCount (batches s (currentBatchId s)) \<longrightarrow>
            submitEncryptedMod en m sc s = Inl BatchFull) \<and>
         (modCount (batches s (currentBatchId s)) < maxBatchSize s \<longrightarrow>
            (\<exists>s'. submitEncryptedMod en m sc s = Inr s' \<and>
               modCount (batches s' (currentBatchId s')) = modCount (batches s (currentBatchId s)) + 1 \<and>
               modCount (batches s' (currentBatchId s')) \<le> maxBatchSize s'))"
  using assms by (auto simp: submitEncryptedMod_def emit_def Let_def not_le inc_le)

subsection \<open>Submissions are recorded in insertion order\<close>

lemma counts_match_reached:
  "chain_ok t0 calls \<Longrightarrow>
     unat (modCount (batches (run cap calls deployed) b)) =
       length (modIds (batches (run cap calls deployed) b))"
  using ledger_inv_reached [of t0 calls cap] by (simp add: ledger_inv_def)

lemma submit_appends:
  assumes "submitEncryptedMod en m sc s = Inr s'"
  shows "modIds (batches s' (currentBatchId s)) = modIds (batches s (currentBatchId s)) @ [m] \<and>
         encryptedScores s' m = sc"
  using assms by (auto simp: submitEncryptedMod_def emit_def Let_def split: if_splits)

subsection \<open>Where a rate-limit error can come from\<close>

lemma aggregateLoop_error:
  "aggregateLoop cap scores ids a = Inl e \<Longrightarrow> e = Require ''score not initialized''"
  by (induction ids arbitrary: a) (auto simp: requireInitialized_def Let_def split: if_splits)

lemma submit_RateLimited_iff:
  assumes "isProvider s (sender en)" and "\<not> paused s"
    and "lastSubmissionAt s (sender en) \<le> timestamp en"
  shows "submitEncryptedMod en m sc s = Inl RateLimited \<longleftrightarrow>
           timestamp en - lastSubmissionAt s (sender en) < cooldownInterval s"
  using assms by (auto simp: submitEncryptedMod_def Let_def)

lemma request_RateLimited_iff:
  assumes "\<not> paused s" and "lastRequestAt s (sender en) \<le> timestamp en"
  shows "requestBatchDecryption cap en b s = Inl RateLimited \<longleftrightarrow>
           timestamp en - lastRequestAt s (sender en) < cooldownInterval s"
  using assms by (auto simp: requestBatchDecryption_def Let_def dest: aggregateLoop_error)

section \<open>The claims\<close>

subsection \<open>C1: the staleness check of the callback\<close>

text \<open>
  C1 says that the callback recomputes the aggregate of the context's batch by the same
  fold as the request and reverts with \<open>InvalidStateHash\<close> exactly when the hash of
  that recomputed aggregate differs from the stored one. The code does not: it hashes
  the stored field \<open>encryptedAggregate\<close>, which in every reached state is the
  encrypted-zero handle. So right after a successful request, when the recomputed
  aggregate still hashes to the stored state hash, the callback reverts with
  \<open>InvalidStateHash\<close> if and only if the hash of the encrypted zero differs from
  the hash of the folded aggregate.
\<close>

theorem callback_checks_stored_aggregate:
  assumes "s = run cap calls deployed" and "requestBatchDecryption cap en b s = Inr s1"
  shows "\<not> processed (decryptionContexts s1 (oracleRequestId en)) \<and>
         stateHash (decryptionContexts s1 (oracleRequestId en)) =
           hashCiphertexts cap [fhe_toBytes32 cap (recomputeAggregate cap s1 b)] \<and>
         (handleDecryptionCallback cap (oracleRequestId en) cleartexts proof s1 = Inl InvalidStateHash
            \<longleftrightarrow> hashCiphertexts cap [fhe_toBytes32 cap (fhe_asEuint32_0 cap)] \<noteq>
                 hashCiphertexts cap [fhe_toBytes32 cap (recomputeAggregate cap s1 b)])"
proof -
  from assms(2) obtain s0 agg where
    s0: "s0 = s\<lparr>lastRequestAt := (lastRequestAt s)(sender en := timestamp en)\<rparr>"
    and cnt: "modCount (batches s b) \<noteq> 0"
    and loop: "aggregateLoop cap (encryptedScores s) (modIds (batches s b))
                 (initIfNeeded cap (encryptedAggregate (batches s b))) = Inr agg"
    and s1: "s1 = emit (DecryptionRequested (oracleRequestId en) b (hashCiphertexts cap [fhe_toBytes32 cap agg]))
                (s0\<lparr>decryptionContexts := (decryptionContexts s0)(oracleRequestId en :=
                     \<lparr>batchId = b, stateHash = hashCiphertexts cap [fhe_toBytes32 cap agg],
                      processed = False, requester = sender en\<rparr>)\<rparr>)"
    by (auto simp: requestBatchDecryption_def Let_def split: if_splits)
  have frame: "batches s1 = batches s" "encryptedScores s1 = encryptedScores s"
    by (simp_all add: s1 s0 emit_def)
  have agg: "agg = recomputeAggregate cap s1 b"
    using aggregateLoop_Inr [OF loop] by (simp add: recomputeAggregate_def initIfNeeded_def frame)
  have "batches s b \<noteq> unopened"
    using cnt by (auto simp: unopened_def)
  then have stored: "encryptedAggregate (batches s1 b) = fhe_asEuint32_0 cap"
    using aggregates_zero_reached [of cap calls] assms(1) by (auto simp: aggregates_zero_def frame)
  have ctx: "decryptionContexts s1 (oracleRequestId en) =
     \<lparr>batchId = b, stateHash = hashCiphertexts cap [fhe_toBytes32 cap agg],
      processed = False, requester = sender en\<rparr>"
    by (simp add: s1 emit_def)
  show ?thesis
    using agg stored by (auto simp: handleDecryptionCallback_def abi_decode_uint256_def Let_def ctx)
qed

theorem callback_checks_stored_aggregate_witness:
  "requestBatchDecryption demo_fhe request_env 1 (run demo_fhe (one_mod 11) deployed) =
     Inr (run demo_fhe (requested 11) deployed) \<and>
   \<not> processed (decryptionContexts (run demo_fhe (requested 11) deployed) 7) \<and>
   stateHash (decryptionContexts (run demo_fhe (requested 11) deployed) 7) =
     hashCiphertexts demo_fhe [fhe_toBytes32 demo_fhe (recomputeAggregate demo_fhe (run demo_fhe (requested 11) deployed) 1)] \<and>
   handleDecryptionCallback demo_fhe 7 (abi_word 10) [1] (run demo_fhe (requested 11) deployed) =
     Inl InvalidStateHash"
proof -
  let ?S = "run demo_fhe (one_mod 11) deployed"
  let ?R = "run demo_fhe (requested 11) deployed"
  have h2: "requestBatchDecryption demo_fhe request_env 1 ?S = Inr ?R"
    by (simp add: eval_defs)
  have id: "oracleRequestId request_env = 7"
    by (simp add: request_env_def)
  have v: "modIds (batches ?R 1) = [1]" "encryptedScores ?R 1 = 11"
    "encryptedAggregate (batches ?R 1) = 1"
    by (simp_all add: eval_defs)
  have ne: "hashCiphertexts demo_fhe [fhe_toBytes32 demo_fhe (fhe_asEuint32_0 demo_fhe)] \<noteq>
     hashCiphertexts demo_fhe [fhe_toBytes32 demo_fhe (recomputeAggregate demo_fhe ?R 1)]"
    by (simp add: recomputeAggregate_def v) (simp add: demo_fhe_def hashCiphertexts_def initIfNeeded_def)
  from callback_checks_stored_aggregate [OF refl h2, of "abi_word 10" "[1]"] ne h2 show ?thesis
    by (simp add: id)
qed

text \<open>
  The other direction: with one encrypted zero in the batch the two hashes coincide under
  \<open>demo_fhe\<close>; a submission that lands after the request changes the recomputed
  aggregate, and the callback is accepted all the same.
\<close>

lemma stale_callback_accepted:
  "stateHash (decryptionContexts (run demo_fhe (requested 1 @ [call 10 500 0 (SubmitEncryptedMod 2 8)]) deployed) 7) \<noteq>
     hashCiphertexts demo_fhe [fhe_toBytes32 demo_fhe (recomputeAggregate demo_fhe
       (run demo_fhe (requested 1 @ [call 10 500 0 (SubmitEncryptedMod 2 8)]) deployed) 1)] \<and>
   processed (decryptionContexts (apply_call demo_fhe
      (run demo_fhe (requested 1 @ [call 10 500 0 (SubmitEncryptedMod 2 8)]) deployed)
      (call 12 600 0 (HandleDecryptionCallback 7 (abi_word 0) [1]))) 7)"
  by (simp add: eval_defs)

subsection \<open>C2: the round trip\<close>

text \<open>
  C2 says that a request followed, with no further submission, by a callback with a valid
  proof succeeds and reports the decoded total. On the design document's own scenario
  (two mods holding 10 and 5, cleartext 15, accepted proof) the code reverts with
  \<open>InvalidStateHash\<close>.
\<close>

theorem round_trip_rejected:
  "stateHash (decryptionContexts
      (run demo_fhe (two_mods 11 6 @ [(request_env, RequestBatchDecryption 1)]) deployed) 7) = 5968 \<and>
   fhe_checkSignatures demo_fhe 7 (abi_word 15) [1] \<and>
   abi_decode_uint256 (abi_word 15) = Inr 15 \<and>
   handleDecryptionCallback demo_fhe 7 (abi_word 15) [1]
     (run demo_fhe (two_mods 11 6 @ [(request_env, RequestBatchDecryption 1)]) deployed) =
       Inl InvalidStateHash"
  by (simp add: eval_defs)

subsection \<open>C3: the stored aggregate is written at opening only\<close>

text \<open>
  C3. The stored field \<open>batches[b].encryptedAggregate\<close> is unwritten (zero) until batch
  \<open>b\<close> is opened; a call changes it only by opening \<open>b\<close> (\<open>initialize\<close> or
  \<open>openBatch\<close>, through \<open>_openBatch\<close>), which sets it to the encrypted-zero handle
  and makes \<open>b\<close> the current batch id, an id strictly above the previous one; the
  current id never decreases, so no call writes the field of \<open>b\<close> again. In
  particular no submission, decryption request or callback changes it.
\<close>

theorem encryptedAggregate_written_once:
  assumes "chain_ok t0 (calls @ [c])" and "s = run cap calls deployed"
    and "s' = apply_call cap s c"
  shows "currentBatchId s \<le> currentBatchId s' \<and>
         (\<forall>b. currentBatchId s < b \<longrightarrow> encryptedAggregate (batches s b) = 0) \<and>
         (\<forall>b. encryptedAggregate (batches s' b) = encryptedAggregate (batches s b) \<or>
              (is_opening (snd c) \<and> currentBatchId s < b \<and> b = currentBatchId s' \<and>
               encryptedAggregate (batches s' b) = fhe_asEuint32_0 cap))"
proof -
  have inv: "ledger_inv s" and snd: "sender (fst c) \<noteq> 0"
    using assms(1,2) by (auto simp: ledger_inv_reached)
  have unwritten: "\<forall>b. currentBatchId s < b \<longrightarrow> encryptedAggregate (batches s b) = 0"
    using inv by (simp add: ledger_inv_def unopened_def)
  show ?thesis
  proof (cases "exec cap (fst c) (snd c) s")
    case (Inl e)
    then have "s' = s"
      by (simp add: assms(3) apply_call_def)
    with unwritten show ?thesis by simp
  next
    case (Inr s2)
    then have "s' = s2"
      by (simp add: assms(3) apply_call_def)
    with aggregate_step [OF inv snd Inr] unwritten show ?thesis
      by simp
  qed
qed

theorem encryptedAggregate_written_once_witness:
  "chain_ok 0 (one_mod 11 @ [call 10 500 0 OpenBatch]) \<and>
   currentBatchId (run demo_fhe (one_mod 11) deployed) = 1 \<and>
   encryptedAggregate (batches (run demo_fhe (one_mod 11) deployed) 2) = 0 \<and>
   encryptedAggregate (batches (apply_call demo_fhe (run demo_fhe (one_mod 11) deployed)
      (call 10 500 0 OpenBatch)) 2) = fhe_asEuint32_0 demo_fhe \<and>
   encryptedAggregate (batches (apply_call demo_fhe (run demo_fhe (one_mod 11) deployed)
      (call 10 500 0 OpenBatch)) 1) = encryptedAggregate (batches (run demo_fhe (one_mod 11) deployed) 1)"
proof -
  have h1: "chain_ok 0 (one_mod 11 @ [call 10 500 0 OpenBatch])"
    by (simp add: one_mod_def call_def)
  have v: "currentBatchId (run demo_fhe (one_mod 11) deployed) = 1"
    "currentBatchId (apply_call demo_fhe (run demo_fhe (one_mod 11) deployed)
      (call 10 500 0 OpenBatch)) = 2"
    "encryptedAggregate (batches (apply_call demo_fhe (run demo_fhe (one_mod 11) deployed)
      (call 10 500 0 OpenBatch)) 2) = 1"
    "encryptedAggregate (batches (run demo_fhe (one_mod 11) deployed) 2) = 0"
    "fhe_asEuint32_0 demo_fhe = 1"
    by (simp_all add: eval_defs)
  from encryptedAggregate_written_once [OF h1 refl refl, of demo_fhe]
  have "\<forall>b. encryptedAggregate (batches (apply_call demo_fhe (run demo_fhe (one_mod 11) deployed)
           (call 10 500 0 OpenBatch)) b) = encryptedAggregate (batches (run demo_fhe (one_mod 11) deployed) b) \<or>
         b = currentBatchId (apply_call demo_fhe (run demo_fhe (one_mod 11) deployed)
           (call 10 500 0 OpenBatch))"
    by blast
  from this [THEN spec, of 1]
  have "encryptedAggregate (batches (apply_call demo_fhe (run demo_fhe (one_mod 11) deployed)
      (call 10 500 0 OpenBatch)) 1) = encryptedAggregate (batches (run demo_fhe (one_mod 11) deployed) 1)"
    by (simp add: v)
  with h1 v show ?thesis by simp
qed

subsection \<open>C4: replay protection\<close>

text \<open>
  C4. Once the context of a request id is processed, it stays processed through every
  later sequence of calls (the oracle never answering a later request with that same
  identifier), and every callback for that id reverts with \<open>ReplayAttempt\<close>, whatever
  the cleartext, the proof and the state hash. So the flag goes from false to true at most
  once.
\<close>

theorem processed_is_final:
  assumes "processed (decryptionContexts s r)" and "\<forall>c\<in>set calls. \<not> issues_id r c"
  shows "processed (decryptionContexts (run cap calls s) r) \<and>
         handleDecryptionCallback cap r cleartexts proof (run cap calls s) = Inl ReplayAttempt"
proof -
  have "processed (decryptionContexts (run cap calls s) r)"
    using assms by (rule processed_run)
  then show ?thesis
    by (simp add: handleDecryptionCallback_def)
qed

theorem processed_is_final_witness:
  "processed (decryptionContexts (run demo_fhe answered deployed) 7) \<and>
   \<not> issues_id 7 (call 10 600 0 (SubmitEncryptedMod 3 5)) \<and>
   \<not> issues_id 7 (call 11 700 8 (RequestBatchDecryption 1)) \<and>
   handleDecryptionCallback demo_fhe 7 (abi_word 0) [1]
     (run demo_fhe [call 10 600 0 (SubmitEncryptedMod 3 5), call 11 700 8 (RequestBatchDecryption 1)]
        (run demo_fhe answered deployed)) = Inl ReplayAttempt"
proof -
  have h1: "processed (decryptionContexts (run demo_fhe answered deployed) 7)"
    by (simp add: answered_def eval_defs)
  have h2: "\<forall>c\<in>set [call 10 600 0 (SubmitEncryptedMod 3 5), call 11 700 8 (RequestBatchDecryption 1)].
      \<not> issues_id 7 c"
    by (simp add: call_def)
  from processed_is_final [OF h1 h2, of demo_fhe "abi_word 0" "[1]"] h1 h2 show ?thesis
    by simp
qed

subsection \<open>C5: who may deliver the callback\<close>



text \<open>The caller's address plays no part in the outcome.\<close>

lemma callback_sender_irrelevant:
  "exec cap en (HandleDecryptionCallback r c p) s = exec cap en' (HandleDecryptionCallback r c p) s"
  by simp


subsection \<open>C6: a mod identifier is written once\<close>

text \<open>
  C6 as amended. After a successful \<open>submitEncryptedMod\<close> of the identifier \<open>m\<close>,
  every later \<open>submitEncryptedMod(m, s)\<close> reverts, whatever the current batch, the
  caller and the handle: with \<open>NotProvider\<close> when the caller is no provider, otherwise
  with \<open>Paused\<close> when the contract is paused, otherwise with \<open>RateLimited\<close> when the
  caller's cooldown has not elapsed, and with \<open>StaleWrite\<close> in every remaining case.
  The entries \<open>modSubmitters[m]\<close>, \<open>modBatchIds[m]\<close> and \<open>encryptedScores[m]\<close> keep
  the values of the first submission. This holds along every run from deployment whose
  calls come from non-zero senders at non-decreasing block timestamps.
\<close>

theorem mod_written_once:
  assumes "chain_ok t0 (pre @ (en0, SubmitEncryptedMod m sc0) # calls)"
    and "s0 = run cap pre deployed"
    and "submitEncryptedMod en0 m sc0 s0 = Inr s1"
    and "s2 = run cap calls s1"
    and "end_time t0 (pre @ (en0, SubmitEncryptedMod m sc0) # calls) \<le> timestamp en"
  shows "submitEncryptedMod en m sc s2 =
           Inl (if \<not> isProvider s2 (sender en) then NotProvider
                else if paused s2 then Paused
                else if timestamp en - lastSubmissionAt s2 (sender en) < cooldownInterval s2
                  then RateLimited
                else StaleWrite) \<and>
         modSubmitters s2 m = sender en0 \<and> modBatchIds s2 m = currentBatchId s0 \<and>
         encryptedScores s2 m = sc0"
proof -
  let ?all = "pre @ (en0, SubmitEncryptedMod m sc0) # calls"
  have nz0: "sender en0 \<noteq> 0"
    using assms(1) by simp
  note r = submit_records [OF assms(3)]
  then have nz: "modSubmitters s1 m \<noteq> 0"
    using nz0 by simp
  from recorded_run [OF nz, of cap calls] r assms(4)
  have kept: "modSubmitters s2 m = sender en0 \<and> modBatchIds s2 m = currentBatchId s0 \<and>
         encryptedScores s2 m = sc0"
    by simp
  then have rec: "modSubmitters s2 m \<noteq> 0"
    using nz0 by simp
  have "apply_call cap s0 (en0, SubmitEncryptedMod m sc0) = s1"
    using assms(3) by (simp add: apply_call_Inr)
  then have "s2 = run cap ?all deployed"
    using assms(2,4) by simp
  then have "stamps_le (end_time t0 ?all) s2"
    using assms(1) stamps_le_deployed stamps_le_run by blast
  then have "lastSubmissionAt s2 (sender en) \<le> timestamp en"
    using assms(5) by (auto simp: stamps_le_def intro: order_trans)
  from submit_recorded_error [OF rec this, of sc] kept show ?thesis
    by simp
qed

theorem mod_written_once_witness:
  "submitEncryptedMod \<lparr>sender = 10, timestamp = 200, oracleRequestId = 0\<rparr> 1 11
     (run demo_fhe [call 10 100 0 Initialize] deployed) = Inr (run demo_fhe (one_mod 11) deployed) \<and>
   submitEncryptedMod \<lparr>sender = 10, timestamp = 900, oracleRequestId = 0\<rparr> 1 33
     (run demo_fhe (one_mod 11 @ later_calls) deployed) = Inl StaleWrite \<and>
   submitEncryptedMod \<lparr>sender = 12, timestamp = 710, oracleRequestId = 0\<rparr> 1 33
     (run demo_fhe (one_mod 11 @ later_calls) deployed) = Inl RateLimited \<and>
   submitEncryptedMod \<lparr>sender = 11, timestamp = 900, oracleRequestId = 0\<rparr> 1 33
     (run demo_fhe (one_mod 11 @ later_calls) deployed) = Inl NotProvider \<and>
   submitEncryptedMod \<lparr>sender = 10, timestamp = 900, oracleRequestId = 0\<rparr> 1 33
     (run demo_fhe (one_mod 11 @ [call 10 300 0 Pause]) deployed) = Inl Paused \<and>
   modSubmitters (run demo_fhe (one_mod 11 @ later_calls) deployed) 1 = 10 \<and>
   modBatchIds (run demo_fhe (one_mod 11 @ later_calls) deployed) 1 = 1 \<and>
   encryptedScores (run demo_fhe (one_mod 11 @ later_calls) deployed) 1 = 11"
proof -
  let ?E0 = "\<lparr>sender = 10, timestamp = 200, oracleRequestId = 0\<rparr>"
  let ?P = "[call 10 100 0 Initialize]"
  let ?S0 = "run demo_fhe [call 10 100 0 Initialize] deployed"
  let ?S1 = "run demo_fhe (one_mod 11) deployed"
  let ?S2 = "run demo_fhe (one_mod 11 @ later_calls) deployed"
  let ?Q = "[call 10 300 0 Pause]"
  let ?S3 = "run demo_fhe (one_mod 11 @ [call 10 300 0 Pause]) deployed"
  let ?A = "\<lparr>sender = 10, timestamp = 900, oracleRequestId = 0\<rparr>"
  let ?B = "\<lparr>sender = 12, timestamp = 710, oracleRequestId = 0\<rparr>"
  let ?D = "\<lparr>sender = 11, timestamp = 900, oracleRequestId = 0\<rparr>"
  have h1: "chain_ok 0 (?P @ (?E0, SubmitEncryptedMod 1 11) # later_calls)"
    and k1: "chain_ok 0 (?P @ (?E0, SubmitEncryptedMod 1 11) # ?Q)"
    by (simp_all add: later_calls_def call_def)
  have h3: "submitEncryptedMod ?E0 1 11 ?S0 = Inr ?S1"
    by (simp add: eval_defs)
  have h4: "?S2 = run demo_fhe later_calls ?S1" and k4: "?S3 = run demo_fhe ?Q ?S1"
    by simp_all
  have h5: "end_time 0 (?P @ (?E0, SubmitEncryptedMod 1 11) # later_calls) \<le> timestamp ?A"
    "end_time 0 (?P @ (?E0, SubmitEncryptedMod 1 11) # later_calls) \<le> timestamp ?B"
    "end_time 0 (?P @ (?E0, SubmitEncryptedMod 1 11) # later_calls) \<le> timestamp ?D"
    and k5: "end_time 0 (?P @ (?E0, SubmitEncryptedMod 1 11) # ?Q) \<le> timestamp ?A"
    by (simp_all add: later_calls_def call_def)
  have v: "isProvider ?S2 10" "isProvider ?S2 12" "\<not> isProvider ?S2 11" "\<not> paused ?S2"
    "lastSubmissionAt ?S2 10 = 200" "lastSubmissionAt ?S2 12 = 700" "cooldownInterval ?S2 = 30"
    "isProvider ?S3 10" "paused ?S3" "currentBatchId ?S0 = 1"
    by (simp_all add: eval_defs)
  from mod_written_once [OF h1 refl h3 h4 h5(1), of 33] v
  have a: "submitEncryptedMod ?A 1 33 ?S2 = Inl StaleWrite \<and> modSubmitters ?S2 1 = 10 \<and>
        modBatchIds ?S2 1 = 1 \<and> encryptedScores ?S2 1 = 11"
    by simp
  from mod_written_once [OF h1 refl h3 h4 h5(2), of 33] v
  have b: "submitEncryptedMod ?B 1 33 ?S2 = Inl RateLimited"
    by simp
  from mod_written_once [OF h1 refl h3 h4 h5(3), of 33] v
  have c: "submitEncryptedMod ?D 1 33 ?S2 = Inl NotProvider"
    by simp
  from mod_written_once [OF k1 refl h3 k4 k5, of 33] v
  have d: "submitEncryptedMod ?A 1 33 ?S3 = Inl Paused"
    by simp
  from h3 a b c d show ?thesis
    by simp
qed


text \<open>
  The claim as stated fails: a resubmission of the recorded identifier 1 reverts with
  \<open>RateLimited\<close> inside the cooldown, with \<open>NotProvider\<close> from an account that is
  no provider, and with \<open>Paused\<close> while the contract is paused, not with
  \<open>StaleWrite\<close>.
\<close>

theorem mod_resubmission_counterexample:
  "modSubmitters (run demo_fhe (one_mod 11) deployed) 1 = 10 \<and>
   isProvider (run demo_fhe (one_mod 11) deployed) 10 \<and>
   submitEncryptedMod \<lparr>sender = 10, timestamp = 210, oracleRequestId = 0\<rparr> 1 11
     (run demo_fhe (one_mod 11) deployed) = Inl RateLimited \<and>
   submitEncryptedMod \<lparr>sender = 11, timestamp = 400, oracleRequestId = 0\<rparr> 1 11
     (run demo_fhe (one_mod 11) deployed) = Inl NotProvider \<and>
   submitEncryptedMod \<lparr>sender = 10, timestamp = 400, oracleRequestId = 0\<rparr> 1 11
     (run demo_fhe (one_mod 11 @ [call 10 300 0 Pause]) deployed) = Inl Paused"
  by (simp add: eval_defs)

subsection \<open>C7: batch capacity\<close>

text \<open>
  C7 as amended. The bound "every batch's \<open>modCount\<close> is at most \<open>maxBatchSize\<close>"
  holds at deployment and is preserved by every call that does not lower
  \<open>maxBatchSize\<close>. A submission that passes the
  provider, pause, cooldown, uniqueness and batch-open checks reverts with \<open>BatchFull\<close>
  when the current batch's count has reached \<open>maxBatchSize\<close>, and succeeds, raising the
  count by one to at most \<open>maxBatchSize\<close>, when the count is strictly below it.
\<close>

theorem capacity_enforced_at_submission:
  "within_capacity deployed \<and>
   (within_capacity s \<and> maxBatchSize s \<le> maxBatchSize (apply_call cap s c) \<longrightarrow>
      within_capacity (apply_call cap s c)) \<and>
   (isProvider s (sender en) \<and> \<not> paused s \<and> rateLimited ''submit'' en s = Inr s1 \<and>
    modSubmitters s m = 0 \<and> isOpen (batches s (currentBatchId s)) \<longrightarrow>
      (maxBatchSize s \<le> modCount (batches s (currentBatchId s)) \<longrightarrow>
         submitEncryptedMod en m sc s = Inl BatchFull) \<and>
      (modCount (batches s (currentBatchId s)) < maxBatchSize s \<longrightarrow>
         (\<exists>s'. submitEncryptedMod en m sc s = Inr s' \<and>
            modCount (batches s' (currentBatchId s')) = modCount (batches s (currentBatchId s)) + 1 \<and>
            modCount (batches s' (currentBatchId s')) \<le> maxBatchSize s')))"
proof (intro conjI impI)
  show "within_capacity deployed"
    by (simp add: within_capacity_def deployed_def)
next
  assume a: "within_capacity s \<and> maxBatchSize s \<le> maxBatchSize (apply_call cap s c)"
  show "within_capacity (apply_call cap s c)"
  proof (cases "exec cap (fst c) (snd c) s")
    case (Inl e)
    with a show ?thesis by (simp add: apply_call_def)
  next
    case (Inr s')
    then have "apply_call cap s c = s'"
      by (simp add: apply_call_def)
    with a Inr capacity_step [of s s' cap "fst c" "snd c"] show ?thesis
      by simp
  qed
next
  assume a: "isProvider s (sender en) \<and> \<not> paused s \<and> rateLimited ''submit'' en s = Inr s1 \<and>
    modSubmitters s m = 0 \<and> isOpen (batches s (currentBatchId s))"
  {
    assume "maxBatchSize s \<le> modCount (batches s (currentBatchId s))"
    with a submit_capacity [of s en s1 m sc]
    show "submitEncryptedMod en m sc s = Inl BatchFull"
      by blast
  }
  {
    assume "modCount (batches s (currentBatchId s)) < maxBatchSize s"
    with a submit_capacity [of s en s1 m sc]
    show "\<exists>s'. submitEncryptedMod en m sc s = Inr s' \<and>
            modCount (batches s' (currentBatchId s')) = modCount (batches s (currentBatchId s)) + 1 \<and>
            modCount (batches s' (currentBatchId s')) \<le> maxBatchSize s'"
      by blast
  }
qed


theorem capacity_enforced_at_submission_witness:
  "within_capacity (run demo_fhe (two_mods 11 6) deployed) \<and>
   within_capacity (run demo_fhe (two_mods 11 6 @ [call 10 400 0 (SubmitEncryptedMod 3 8)]) deployed) \<and>
   modCount (batches (run demo_fhe (two_mods 11 6 @ [call 10 400 0 (SubmitEncryptedMod 3 8)]) deployed) 1) = 3 \<and>
   submitEncryptedMod \<lparr>sender = 10, timestamp = 500, oracleRequestId = 0\<rparr> 3 8
     (run demo_fhe (two_mods 11 6 @ [call 10 400 0 (SetMaxBatchSize 2)]) deployed) = Inl BatchFull"
proof -
  let ?S = "run demo_fhe (two_mods 11 6) deployed"
  let ?C = "call 10 400 0 (SubmitEncryptedMod 3 8)"
  let ?E = "\<lparr>sender = 10, timestamp = 400, oracleRequestId = 0\<rparr>"
  let ?F = "run demo_fhe (two_mods 11 6 @ [call 10 400 0 (SetMaxBatchSize 2)]) deployed"
  let ?G = "\<lparr>sender = 10, timestamp = 500, oracleRequestId = 0\<rparr>"
  have h1: "within_capacity ?S"
    by (simp add: within_capacity_def eval_defs)
  have h2: "maxBatchSize ?S \<le> maxBatchSize (apply_call demo_fhe ?S ?C)"
    by (simp add: eval_defs)
  have v: "isProvider ?S (sender ?E)" "\<not> paused ?S" "modSubmitters ?S 3 = 0"
    "isOpen (batches ?S (currentBatchId ?S))" "modCount (batches ?S (currentBatchId ?S)) < maxBatchSize ?S"
    by (simp_all add: eval_defs)
  have h3: "rateLimited ''submit'' ?E ?S = Inr (?S\<lparr>lastSubmissionAt := (lastSubmissionAt ?S)(10 := 400)\<rparr>)"
    by (simp add: eval_defs)
  have w: "isProvider ?F (sender ?G)" "\<not> paused ?F" "modSubmitters ?F 3 = 0"
    "isOpen (batches ?F (currentBatchId ?F))" "maxBatchSize ?F \<le> modCount (batches ?F (currentBatchId ?F))"
    by (simp_all add: eval_defs)
  have h4: "rateLimited ''submit'' ?G ?F = Inr (?F\<lparr>lastSubmissionAt := (lastSubmissionAt ?F)(10 := 500)\<rparr>)"
    by (simp add: eval_defs)
  from capacity_enforced_at_submission [where s = ?S and cap = demo_fhe and c = ?C and en = ?E
      and m = 3 and sc = 8 and ?s1.0 = "?S\<lparr>lastSubmissionAt := (lastSubmissionAt ?S)(10 := 400)\<rparr>"]
    h1 h2 v h3
  have a: "within_capacity (apply_call demo_fhe ?S ?C)"
    by blast
  from capacity_enforced_at_submission [where s = ?F and cap = demo_fhe and c = ?C and en = ?G
      and m = 3 and sc = 8 and ?s1.0 = "?F\<lparr>lastSubmissionAt := (lastSubmissionAt ?F)(10 := 500)\<rparr>"]
    w h4
  have b: "submitEncryptedMod ?G 3 8 ?F = Inl BatchFull"
    by blast
  have c: "modCount (batches (run demo_fhe (two_mods 11 6 @ [call 10 400 0 (SubmitEncryptedMod 3 8)]) deployed) 1) = 3"
    by (simp add: eval_defs)
  from h1 a b c show ?thesis
    by simp
qed

text \<open>
  The claim as stated fails: \<open>setMaxBatchSize\<close> accepts any positive size, also one
  below the count of an existing batch.
\<close>

theorem capacity_counterexample:
  "chain_ok 0 (two_mods 11 6 @ [call 10 400 0 (SetMaxBatchSize 1)]) \<and>
   modCount (batches (run demo_fhe (two_mods 11 6 @ [call 10 400 0 (SetMaxBatchSize 1)]) deployed) 1) = 2 \<and>
   maxBatchSize (run demo_fhe (two_mods 11 6 @ [call 10 400 0 (SetMaxBatchSize 1)]) deployed) = 1 \<and>
   \<not> within_capacity (run demo_fhe (two_mods 11 6 @ [call 10 400 0 (SetMaxBatchSize 1)]) deployed)"
proof -
  let ?S = "run demo_fhe (two_mods 11 6 @ [call 10 400 0 (SetMaxBatchSize 1)]) deployed"
  have ok: "chain_ok 0 (two_mods 11 6 @ [call 10 400 0 (SetMaxBatchSize 1)])"
    by (simp add: two_mods_def one_mod_def call_def)
  have v: "modCount (batches ?S 1) = 2" "maxBatchSize ?S = 1"
    by (simp_all add: eval_defs)
  have "\<not> within_capacity ?S"
  proof
    assume "within_capacity ?S"
    then have "modCount (batches ?S 1) \<le> maxBatchSize ?S"
      by (simp only: within_capacity_def)
    with v show False by (simp add: word_le_nat_alt)
  qed
  with ok v show ?thesis by simp
qed

subsection \<open>C8: closing a batch is terminal\<close>

text \<open>
  C8 as amended. \<open>closeBatch(b)\<close> succeeds if and only if the caller is the owner and
  \<open>batches[b].isOpen\<close> is true. Once it has succeeded, batch \<open>b\<close> is closed in every
  later state, and while \<open>b\<close> is the current batch every submission reverts: with
  \<open>BatchNotOpen\<close> whenever it passes the provider, pause, cooldown and uniqueness
  checks, which run first.
\<close>

theorem closeBatch_terminal:
  assumes "chain_ok t0 calls" and "s = run cap calls deployed"
  shows "((\<exists>s'. closeBatch en b s = Inr s') \<longleftrightarrow> sender en = owner s \<and> isOpen (batches s b)) \<and>
         (closeBatch en b s = Inr s1 \<and> s2 = run cap later s1 \<longrightarrow>
            \<not> isOpen (batches s2 b) \<and>
            (currentBatchId s2 = b \<longrightarrow>
               (\<exists>e. submitEncryptedMod en' m sc s2 = Inl e) \<and>
               (isProvider s2 (sender en') \<and> \<not> paused s2 \<and>
                rateLimited ''submit'' en' s2 = Inr s3 \<and> modSubmitters s2 m = 0 \<longrightarrow>
                  submitEncryptedMod en' m sc s2 = Inl BatchNotOpen)))"
proof (intro conjI impI)
  show "(\<exists>s'. closeBatch en b s = Inr s') \<longleftrightarrow> sender en = owner s \<and> isOpen (batches s b)"
    by (auto simp: closeBatch_Inr_iff)
next
  assume a: "closeBatch en b s = Inr s1 \<and> s2 = run cap later s1"
  have inv: "ledger_inv s"
    using assms by (simp add: ledger_inv_reached)
  from a have op: "isOpen (batches s b)"
    and s1: "s1 = emit (BatchClosed b) (s\<lparr>batches := (batches s)(b := (batches s b)\<lparr>isOpen := False\<rparr>)\<rparr>)"
    by (simp_all add: closeBatch_Inr_iff)
  from open_batch_known [OF inv op] s1
  have "\<not> isOpen (batches s1 b)" "b \<le> currentBatchId s1" "initialized s1"
    by (simp_all add: emit_def)
  from closed_run [OF this, of cap later] a
  show closed: "\<not> isOpen (batches s2 b)"
    by simp
  {
    assume cur: "currentBatchId s2 = b"
    with closed have c: "\<not> isOpen (batches s2 (currentBatchId s2))"
      by simp
    from submit_closed [OF c, of en' m sc s3]
    show "\<exists>e. submitEncryptedMod en' m sc s2 = Inl e"
      by blast
    assume "isProvider s2 (sender en') \<and> \<not> paused s2 \<and>
      rateLimited ''submit'' en' s2 = Inr s3 \<and> modSubmitters s2 m = 0"
    with submit_closed [OF c, of en' m sc s3]
    show "submitEncryptedMod en' m sc s2 = Inl BatchNotOpen"
      by blast
  }
qed


theorem closeBatch_terminal_witness:
  "chain_ok 0 (one_mod 11) \<and>
   closeBatch \<lparr>sender = 10, timestamp = 500, oracleRequestId = 0\<rparr> 1 (run demo_fhe (one_mod 11) deployed) =
     Inr (run demo_fhe (one_mod 11 @ [call 10 500 0 (CloseBatch 1)]) deployed) \<and>
   \<not> isOpen (batches (run demo_fhe (one_mod 11 @ [call 10 500 0 (CloseBatch 1), call 10 600 0 (AddProvider 12)]) deployed) 1) \<and>
   submitEncryptedMod \<lparr>sender = 12, timestamp = 700, oracleRequestId = 0\<rparr> 5 9
     (run demo_fhe (one_mod 11 @ [call 10 500 0 (CloseBatch 1), call 10 600 0 (AddProvider 12)]) deployed) =
     Inl BatchNotOpen"
proof -
  let ?S = "run demo_fhe (one_mod 11) deployed"
  let ?E1 = "\<lparr>sender = 10, timestamp = 500, oracleRequestId = 0\<rparr>"
  let ?S1 = "run demo_fhe (one_mod 11 @ [call 10 500 0 (CloseBatch 1)]) deployed"
  let ?L = "[call 10 600 0 (AddProvider 12)]"
  let ?S2 = "run demo_fhe (one_mod 11 @ [call 10 500 0 (CloseBatch 1), call 10 600 0 (AddProvider 12)]) deployed"
  let ?E2 = "\<lparr>sender = 12, timestamp = 700, oracleRequestId = 0\<rparr>"
  have h1: "chain_ok 0 (one_mod 11)"
    by (simp add: one_mod_def call_def)
  have h3: "closeBatch ?E1 1 ?S = Inr ?S1"
    by (simp add: eval_defs)
  have h4: "?S2 = run demo_fhe ?L ?S1"
    by simp
  have v: "currentBatchId ?S2 = 1" "isProvider ?S2 (sender ?E2)" "\<not> paused ?S2" "modSubmitters ?S2 5 = 0"
    by (simp_all add: eval_defs)
  have h5: "rateLimited ''submit'' ?E2 ?S2 = Inr (?S2\<lparr>lastSubmissionAt := (lastSubmissionAt ?S2)(12 := 700)\<rparr>)"
    by (simp add: eval_defs)
  from closeBatch_terminal [OF h1 refl, where cap = demo_fhe and en = ?E1 and b = 1 and ?s1.0 = ?S1
      and ?s2.0 = ?S2 and later = ?L and en' = ?E2 and m = 5 and sc = 9
      and ?s3.0 = "?S2\<lparr>lastSubmissionAt := (lastSubmissionAt ?S2)(12 := 700)\<rparr>"] h3 h4 v h5
  have "\<not> isOpen (batches ?S2 1) \<and> submitEncryptedMod ?E2 5 9 ?S2 = Inl BatchNotOpen"
    by blast
  with h1 h3 show ?thesis
    by simp
qed

text \<open>
  The claim as stated fails: a caller who is not the owner cannot close an open batch;
  and a submission to the closed current batch reverts with \<open>NotProvider\<close> when it
  comes from a non-provider and with \<open>StaleWrite\<close> when a provider reuses the
  identifier 1, not with \<open>BatchNotOpen\<close>.
\<close>

theorem closeBatch_counterexample:
  "isOpen (batches (run demo_fhe (one_mod 11) deployed) 1) \<and>
   closeBatch \<lparr>sender = 11, timestamp = 500, oracleRequestId = 0\<rparr> 1
     (run demo_fhe (one_mod 11) deployed) = Inl NotOwner \<and>
   currentBatchId (run demo_fhe (one_mod 11 @ [call 10 500 0 (CloseBatch 1)]) deployed) = 1 \<and>
   \<not> isOpen (batches (run demo_fhe (one_mod 11 @ [call 10 500 0 (CloseBatch 1)]) deployed) 1) \<and>
   submitEncryptedMod \<lparr>sender = 11, timestamp = 600, oracleRequestId = 0\<rparr> 5 9
     (run demo_fhe (one_mod 11 @ [call 10 500 0 (CloseBatch 1)]) deployed) = Inl NotProvider \<and>
   submitEncryptedMod \<lparr>sender = 10, timestamp = 600, oracleRequestId = 0\<rparr> 1 9
     (run demo_fhe (one_mod 11 @ [call 10 500 0 (CloseBatch 1)]) deployed) = Inl StaleWrite"
  by (simp add: eval_defs)

subsection \<open>C9: the cooldown guard\<close>

text \<open>
  C9. For the action kind "submit" (respectively "request"), the guard \<open>rateLimited\<close>
  run by address \<open>a\<close> reverts with \<open>RateLimited\<close> if and only if \<open>block.timestamp\<close>
  minus \<open>lastSubmissionAt[a]\<close> (respectively \<open>lastRequestAt[a]\<close>) is strictly less
  than \<open>cooldownInterval\<close>; when the check passes, the guard hands on to the guarded
  body the storage with that one per-address timestamp set to the current time, the
  timestamp of the other action kind untouched. The same equivalence holds of the guarded
  functions themselves once the modifiers that run before the guard have passed
  (\<open>onlyProvider\<close> and \<open>whenNotPaused\<close> for \<open>submitEncryptedMod\<close>, \<open>whenNotPaused\<close>
  for \<open>requestBatchDecryption\<close>). All this holds in every state reached from deployment
  by calls whose block timestamps do not decrease, for a call at or after the last of
  them.
\<close>

theorem rateLimited_cooldown:
  assumes "chain_ok t0 calls" and "end_time t0 calls \<le> timestamp en"
    and "s = run cap calls deployed"
  shows "(rateLimited ''submit'' en s = Inl RateLimited \<longleftrightarrow>
            timestamp en - lastSubmissionAt s (sender en) < cooldownInterval s) \<and>
         (\<not> timestamp en - lastSubmissionAt s (sender en) < cooldownInterval s \<longrightarrow>
            rateLimited ''submit'' en s =
              Inr (s\<lparr>lastSubmissionAt := (lastSubmissionAt s)(sender en := timestamp en)\<rparr>)) \<and>
         (rateLimited ''request'' en s = Inl RateLimited \<longleftrightarrow>
            timestamp en - lastRequestAt s (sender en) < cooldownInterval s) \<and>
         (\<not> timestamp en - lastRequestAt s (sender en) < cooldownInterval s \<longrightarrow>
            rateLimited ''request'' en s =
              Inr (s\<lparr>lastRequestAt := (lastRequestAt s)(sender en := timestamp en)\<rparr>)) \<and>
         (isProvider s (sender en) \<and> \<not> paused s \<longrightarrow>
            (submitEncryptedMod en m sc s = Inl RateLimited \<longleftrightarrow>
               timestamp en - lastSubmissionAt s (sender en) < cooldownInterval s)) \<and>
         (\<not> paused s \<longrightarrow>
            (requestBatchDecryption cap en b s = Inl RateLimited \<longleftrightarrow>
               timestamp en - lastRequestAt s (sender en) < cooldownInterval s))"
proof -
  have "stamps_le (end_time t0 calls) s"
    using assms(1,3) stamps_le_deployed stamps_le_run by blast
  then have le: "lastSubmissionAt s (sender en) \<le> timestamp en"
    "lastRequestAt s (sender en) \<le> timestamp en"
    using assms(2) by (auto simp: stamps_le_def intro: order_trans)
  then have guard: "(rateLimited ''submit'' en s = Inl RateLimited \<longleftrightarrow>
            timestamp en - lastSubmissionAt s (sender en) < cooldownInterval s) \<and>
         (\<not> timestamp en - lastSubmissionAt s (sender en) < cooldownInterval s \<longrightarrow>
            rateLimited ''submit'' en s =
              Inr (s\<lparr>lastSubmissionAt := (lastSubmissionAt s)(sender en := timestamp en)\<rparr>)) \<and>
         (rateLimited ''request'' en s = Inl RateLimited \<longleftrightarrow>
            timestamp en - lastRequestAt s (sender en) < cooldownInterval s) \<and>
         (\<not> timestamp en - lastRequestAt s (sender en) < cooldownInterval s \<longrightarrow>
            rateLimited ''request'' en s =
              Inr (s\<lparr>lastRequestAt := (lastRequestAt s)(sender en := timestamp en)\<rparr>))"
    by auto
  from le have "isProvider s (sender en) \<and> \<not> paused s \<longrightarrow>
            (submitEncryptedMod en m sc s = Inl RateLimited \<longleftrightarrow>
               timestamp en - lastSubmissionAt s (sender en) < cooldownInterval s)"
    by (simp add: submit_RateLimited_iff)
  moreover from le have "\<not> paused s \<longrightarrow>
            (requestBatchDecryption cap en b s = Inl RateLimited \<longleftrightarrow>
               timestamp en - lastRequestAt s (sender en) < cooldownInterval s)"
    by (simp add: request_RateLimited_iff)
  ultimately show ?thesis
    using guard by blast
qed


theorem rateLimited_cooldown_witness:
  "chain_ok 0 (one_mod 11) \<and>
   rateLimited ''submit'' \<lparr>sender = 10, timestamp = 210, oracleRequestId = 0\<rparr>
     (run demo_fhe (one_mod 11) deployed) = Inl RateLimited \<and>
   lastSubmissionAt (run demo_fhe (one_mod 11) deployed) 10 = 200 \<and>
   lastRequestAt (run demo_fhe (one_mod 11) deployed) 10 = 0 \<and>
   (\<exists>s'. rateLimited ''request'' \<lparr>sender = 10, timestamp = 210, oracleRequestId = 0\<rparr>
     (run demo_fhe (one_mod 11) deployed) = Inr s' \<and> lastRequestAt s' 10 = 210
       \<and> lastSubmissionAt s' 10 = 200) \<and>
   submitEncryptedMod \<lparr>sender = 10, timestamp = 210, oracleRequestId = 0\<rparr> 2 6
     (run demo_fhe (one_mod 11) deployed) = Inl RateLimited"
proof -
  have h1: "chain_ok 0 (one_mod 11)"
    by (simp add: one_mod_def call_def)
  have h2: "end_time 0 (one_mod 11) \<le> timestamp \<lparr>sender = 10, timestamp = 210, oracleRequestId = 0\<rparr>"
    by (simp add: one_mod_def call_def)
  have v: "lastSubmissionAt (run demo_fhe (one_mod 11) deployed) 10 = 200"
    "lastRequestAt (run demo_fhe (one_mod 11) deployed) 10 = 0"
    "cooldownInterval (run demo_fhe (one_mod 11) deployed) = 30"
    "isProvider (run demo_fhe (one_mod 11) deployed) 10"
    "\<not> paused (run demo_fhe (one_mod 11) deployed)"
    by (simp_all add: eval_defs)
  from rateLimited_cooldown [OF h1 h2 refl, of demo_fhe 2 6] h1 v show ?thesis
    by simp
qed

subsection \<open>C10: requesting a decryption\<close>

text \<open>
  C10. \<open>requestBatchDecryption(b)\<close>, called while the contract is not paused by a caller
  who passes the cooldown check, reverts with \<open>InvalidBatch\<close> when batch \<open>b\<close> has no
  submissions. Otherwise it recomputes the aggregate in full, folding the encrypted-add
  over every submission's score handle in the batch's recorded insertion order (each
  successful submission appends its identifier at the end of the batch's list), starting
  from the stored aggregate when that is initialized and from the zero handle when it is
  not, and records the hash of that aggregate in the new context; if any score handle met
  in the fold is uninitialized the whole call reverts. This holds in every storage in
  which the batch's counter is the length of its identifier list, as it is in every state
  reached from deployment.
\<close>

theorem requestBatchDecryption_recomputes:
  assumes "unat (modCount (batches s b)) = length (modIds (batches s b))"
    and "\<not> paused s" and "rateLimited ''request'' en s = Inr s1"
  shows "(modIds (batches s b) = [] \<longrightarrow> requestBatchDecryption cap en b s = Inl InvalidBatch) \<and>
         (modIds (batches s b) \<noteq> [] \<and>
          (\<forall>m\<in>set (modIds (batches s b)). fhe_isInitialized cap (encryptedScores s m)) \<longrightarrow>
            requestBatchDecryption cap en b s =
              Inr (emit (DecryptionRequested (oracleRequestId en) b
                          (hashCiphertexts cap [fhe_toBytes32 cap (recomputeAggregate cap s b)]))
                    (s1\<lparr>decryptionContexts := (decryptionContexts s1)(oracleRequestId en :=
                          \<lparr>batchId = b,
                           stateHash = hashCiphertexts cap [fhe_toBytes32 cap (recomputeAggregate cap s b)],
                           processed = False, requester = sender en\<rparr>)\<rparr>))) \<and>
         (modIds (batches s b) \<noteq> [] \<and>
          (\<exists>m\<in>set (modIds (batches s b)). \<not> fhe_isInitialized cap (encryptedScores s m)) \<longrightarrow>
            requestBatchDecryption cap en b s = Inl (Require ''score not initialized'')) \<and>
         (submitEncryptedMod en' m' sc' s = Inr s' \<longrightarrow>
            modIds (batches s' (currentBatchId s)) = modIds (batches s (currentBatchId s)) @ [m'] \<and>
            encryptedScores s' m' = sc')"
proof -
  have z: "modCount (batches s b) = 0 \<longleftrightarrow> modIds (batches s b) = []"
    using assms(1) by (metis length_0_conv unat_eq_0)
  have s1: "s1 = s\<lparr>lastRequestAt := (lastRequestAt s)(sender en := timestamp en)\<rparr>"
    using assms(3) by simp
  have pass: "whenNotPaused s = Inr s"
    using assms(2) by simp
  have body: "requestBatchDecryption cap en b s =
     (let batch = batches s1 b in
       if modCount batch = 0 then Inl InvalidBatch
       else
         andThen (aggregateLoop cap (encryptedScores s1) (modIds batch)
                    (initIfNeeded cap (encryptedAggregate batch))) (\<lambda>aggregate.
           let cts = [fhe_toBytes32 cap aggregate];
               h = hashCiphertexts cap cts;
               requestId = oracleRequestId en
           in Inr (emit (DecryptionRequested requestId b h)
                (s1\<lparr>decryptionContexts := (decryptionContexts s1)(requestId :=
                     \<lparr>batchId = b, stateHash = h, processed = False, requester = sender en\<rparr>)\<rparr>))))"
    unfolding requestBatchDecryption_def pass andThen.simps assms(3) ..
  have same: "batches s1 = batches s" "encryptedScores s1 = encryptedScores s"
    by (simp_all add: s1)
  have start: "initIfNeeded cap (encryptedAggregate (batches s b)) =
      (if fhe_isInitialized cap (encryptedAggregate (batches s b))
       then encryptedAggregate (batches s b) else fhe_asEuint32_0 cap)"
    by (simp add: initIfNeeded_def)
  show ?thesis
  proof (intro conjI impI)
    assume "modIds (batches s b) = []"
    then show "requestBatchDecryption cap en b s = Inl InvalidBatch"
      using z by (simp add: body same)
  next
    assume a: "modIds (batches s b) \<noteq> [] \<and>
      (\<forall>m\<in>set (modIds (batches s b)). fhe_isInitialized cap (encryptedScores s m))"
    then have "aggregateLoop cap (encryptedScores s) (modIds (batches s b))
        (initIfNeeded cap (encryptedAggregate (batches s b))) = Inr (recomputeAggregate cap s b)"
      using aggregateLoop_fold [of "modIds (batches s b)" cap "encryptedScores s"]
      by (simp add: recomputeAggregate_def start)
    with a z show "requestBatchDecryption cap en b s =
              Inr (emit (DecryptionRequested (oracleRequestId en) b
                          (hashCiphertexts cap [fhe_toBytes32 cap (recomputeAggregate cap s b)]))
                    (s1\<lparr>decryptionContexts := (decryptionContexts s1)(oracleRequestId en :=
                          \<lparr>batchId = b,
                           stateHash = hashCiphertexts cap [fhe_toBytes32 cap (recomputeAggregate cap s b)],
                           processed = False, requester = sender en\<rparr>)\<rparr>))"
      by (simp add: body same Let_def)
  next
    assume a: "modIds (batches s b) \<noteq> [] \<and>
      (\<exists>m\<in>set (modIds (batches s b)). \<not> fhe_isInitialized cap (encryptedScores s m))"
    then have "aggregateLoop cap (encryptedScores s) (modIds (batches s b))
        (initIfNeeded cap (encryptedAggregate (batches s b))) = Inl (Require ''score not initialized'')"
      by (simp add: aggregateLoop_uninitialized)
    with a z show "requestBatchDecryption cap en b s = Inl (Require ''score not initialized'')"
      by (simp add: body same Let_def)
  next
    assume "submitEncryptedMod en' m' sc' s = Inr s'"
    then show "modIds (batches s' (currentBatchId s)) = modIds (batches s (currentBatchId s)) @ [m']"
      and "encryptedScores s' m' = sc'"
      by (simp_all add: submit_appends)
  qed
qed


theorem requestBatchDecryption_recomputes_witness:
  "modIds (batches (run ordered_fhe (two_mods 11 6) deployed) 1) =
     modIds (batches (run ordered_fhe (one_mod 11) deployed) 1) @ [2] \<and>
   modIds (batches (run ordered_fhe (two_mods 11 6) deployed) 1) = [1, 2] \<and>
   recomputeAggregate ordered_fhe (run ordered_fhe (two_mods 11 6) deployed) 1 = (1 * 31 + 11) * 31 + 6 \<and>
   (\<exists>s'. requestBatchDecryption ordered_fhe request_env 1
            (run ordered_fhe (two_mods 11 6) deployed) = Inr s' \<and>
     decryptionContexts s' 7 = \<lparr>batchId = 1, stateHash = 7260, processed = False, requester = 11\<rparr>) \<and>
   \<not> fhe_isInitialized ordered_fhe (encryptedAggregate (batches stray_batch 5)) \<and>
   (\<exists>s'. requestBatchDecryption ordered_fhe request_env 5 stray_batch = Inr s' \<and>
     decryptionContexts s' 7 = \<lparr>batchId = 5, stateHash = 7260, processed = False, requester = 11\<rparr>) \<and>
   requestBatchDecryption ordered_fhe request_env 2
     (run ordered_fhe (two_mods 11 6) deployed) = Inl InvalidBatch \<and>
   requestBatchDecryption ordered_fhe request_env 1
     (run ordered_fhe (two_mods 11 0) deployed) = Inl (Require ''score not initialized'')"
proof -
  let ?O = "run ordered_fhe (one_mod 11) deployed"
  let ?T = "run ordered_fhe (two_mods 11 6) deployed"
  let ?U = "run ordered_fhe (two_mods 11 0) deployed"
  let ?W = "stray_batch"
  have cnt: "unat (modCount (batches ?O 1)) = length (modIds (batches ?O 1))"
    "unat (modCount (batches ?T 1)) = length (modIds (batches ?T 1))"
    "unat (modCount (batches ?T 2)) = length (modIds (batches ?T 2))"
    "unat (modCount (batches ?U 1)) = length (modIds (batches ?U 1))"
    "unat (modCount (batches ?W 5)) = length (modIds (batches ?W 5))"
    by (simp_all add: eval_defs)
  have np: "\<not> paused ?O" "\<not> paused ?T" "\<not> paused ?U" "\<not> paused ?W"
    by (simp_all add: eval_defs)
  have rl: "rateLimited ''request'' request_env ?O = Inr (?O\<lparr>lastRequestAt := (lastRequestAt ?O)(11 := 400)\<rparr>)"
    "rateLimited ''request'' request_env ?T = Inr (?T\<lparr>lastRequestAt := (lastRequestAt ?T)(11 := 400)\<rparr>)"
    "rateLimited ''request'' request_env ?U = Inr (?U\<lparr>lastRequestAt := (lastRequestAt ?U)(11 := 400)\<rparr>)"
    "rateLimited ''request'' request_env ?W = Inr (?W\<lparr>lastRequestAt := (lastRequestAt ?W)(11 := 400)\<rparr>)"
    by (simp_all add: eval_defs)
  have v: "modIds (batches ?O 1) = [1]" "modIds (batches ?T 1) = [1, 2]" "modIds (batches ?T 2) = []"
    "encryptedScores ?T 1 = 11" "encryptedScores ?T 2 = 6" "encryptedAggregate (batches ?T 1) = 1"
    "modIds (batches ?U 1) = [1, 2]" "encryptedScores ?U 1 = 11" "encryptedScores ?U 2 = 0"
    "modIds (batches ?W 5) = [1, 2]" "encryptedScores ?W 1 = 11" "encryptedScores ?W 2 = 6"
    "encryptedAggregate (batches ?W 5) = 0" "currentBatchId ?O = 1"
    by (simp_all add: eval_defs)
  have ini: "fhe_isInitialized ordered_fhe 11" "fhe_isInitialized ordered_fhe 6"
    "fhe_isInitialized ordered_fhe 1" "\<not> fhe_isInitialized ordered_fhe 0"
    by (simp_all add: ordered_fhe_def demo_fhe_def)
  have agg: "recomputeAggregate ordered_fhe ?T 1 = (1 * 31 + 11) * 31 + 6"
    "recomputeAggregate ordered_fhe ?W 5 = (1 * 31 + 11) * 31 + 6"
    by (simp_all add: recomputeAggregate_def v ini) (simp_all add: ordered_fhe_def demo_fhe_def)
  have h: "hashCiphertexts ordered_fhe [fhe_toBytes32 ordered_fhe ((1 * 31 + 11) * 31 + 6)] = 7260"
    by (simp add: ordered_fhe_def demo_fhe_def hashCiphertexts_def)
  have sub: "submitEncryptedMod \<lparr>sender = 10, timestamp = 300, oracleRequestId = 0\<rparr> 2 6 ?O = Inr ?T"
    by (simp add: eval_defs)
  from requestBatchDecryption_recomputes [OF cnt(1) np(1) rl(1), where cap = ordered_fhe
      and en' = "\<lparr>sender = 10, timestamp = 300, oracleRequestId = 0\<rparr>" and m' = 2 and sc' = 6
      and s' = ?T] sub
  have a: "modIds (batches ?T 1) = modIds (batches ?O 1) @ [2]"
    by (simp add: v)
  from requestBatchDecryption_recomputes [OF cnt(2) np(2) rl(2), where cap = ordered_fhe]
  have b: "\<exists>s'. requestBatchDecryption ordered_fhe request_env 1 ?T = Inr s' \<and>
     decryptionContexts s' 7 = \<lparr>batchId = 1, stateHash = 7260, processed = False, requester = 11\<rparr>"
    using v ini agg h by (simp add: emit_def request_env_def)
  from requestBatchDecryption_recomputes [OF cnt(5) np(4) rl(4), where cap = ordered_fhe]
  have c: "\<exists>s'. requestBatchDecryption ordered_fhe request_env 5 ?W = Inr s' \<and>
     decryptionContexts s' 7 = \<lparr>batchId = 5, stateHash = 7260, processed = False, requester = 11\<rparr>"
    using v ini agg h by (simp add: emit_def request_env_def)
  from requestBatchDecryption_recomputes [OF cnt(3) np(2) rl(2), where cap = ordered_fhe]
  have d: "requestBatchDecryption ordered_fhe request_env 2 ?T = Inl InvalidBatch"
    using v by simp
  from requestBatchDecryption_recomputes [OF cnt(4) np(3) rl(3), where cap = ordered_fhe]
  have e: "requestBatchDecryption ordered_fhe request_env 1 ?U = Inl (Require ''score not initialized'')"
    using v ini by simp
  from a b c d e v(2,13) agg(1) ini(4) show ?thesis
    by simp
qed


end
